theory Spec2Isabelle
  imports Main "HOL-Library.Word"
begin

unbundle bit_operations_syntax

section \<open>JavaScript strings, hexadecimal and UTF-8\<close>

type_synonym byte = "8 word"

text \<open>A JavaScript string is a sequence of 16-bit UTF-16 code units.\<close>
type_synonym js_string = "16 word list"

definition js :: "string \<Rightarrow> js_string" where
  "js s = map (\<lambda>c. of_nat (of_char c)) s"

text \<open>\<^verbatim>\<open>s.split(sep)\<close> for a one-character separator: always at least one part.\<close>
fun split :: "'a \<Rightarrow> 'a list \<Rightarrow> 'a list list" where
  "split sep [] = [[]]"
| "split sep (c # cs) =
     (if c = sep then [] # split sep cs
      else (case split sep cs of p # ps \<Rightarrow> (c # p) # ps | [] \<Rightarrow> [[c]]))"

subsection \<open>Hexadecimal\<close>

definition hex_digit :: "nat \<Rightarrow> 16 word" where
  "hex_digit n = (if n < 10 then of_nat (48 + n) else of_nat (87 + n))"

text \<open>\<^verbatim>\<open>buf.toString('hex')\<close>: two lower-case digits per byte.\<close>
definition toString_hex :: "byte list \<Rightarrow> js_string" where
  "toString_hex bs = concat (map (\<lambda>b. [hex_digit (unat b div 16), hex_digit (unat b mod 16)]) bs)"

definition hex_value :: "16 word \<Rightarrow> nat option" where
  "hex_value u =
     (let c = unat u in
      if 48 \<le> c \<and> c \<le> 57 then Some (c - 48)
      else if 97 \<le> c \<and> c \<le> 102 then Some (c - 87)
      else if 65 \<le> c \<and> c \<le> 70 then Some (c - 55)
      else None)"

text \<open>\<^verbatim>\<open>Buffer.from(s, 'hex')\<close>: decodes two digits at a time and stops, without an
  error, at the first pair that is not hexadecimal; a trailing single digit is dropped.\<close>
fun Buffer_from_hex :: "js_string \<Rightarrow> byte list" where
  "Buffer_from_hex (h # l # rest) =
     (case hex_value h of
        None \<Rightarrow> []
      | Some a \<Rightarrow> (case hex_value l of
                    None \<Rightarrow> []
                  | Some b \<Rightarrow> of_nat (16 * a + b) # Buffer_from_hex rest))"
| "Buffer_from_hex _ = []"

subsection \<open>UTF-8\<close>

definition is_high :: "16 word \<Rightarrow> bool" where
  "is_high u = (0xD800 \<le> unat u \<and> unat u < 0xDC00)"

definition is_low :: "16 word \<Rightarrow> bool" where
  "is_low u = (0xDC00 \<le> unat u \<and> unat u < 0xE000)"

text \<open>The UTF-8 form of a code point below 0x110000.\<close>
definition enc_cp :: "nat \<Rightarrow> byte list" where
  "enc_cp c =
     (if c < 0x80 then [of_nat c]
      else if c < 0x800 then [of_nat (0xC0 + c div 0x40), of_nat (0x80 + c mod 0x40)]
      else if c < 0x10000 then
        [of_nat (0xE0 + c div 0x1000), of_nat (0x80 + c div 0x40 mod 0x40),
         of_nat (0x80 + c mod 0x40)]
      else
        [of_nat (0xF0 + c div 0x40000), of_nat (0x80 + c div 0x1000 mod 0x40),
         of_nat (0x80 + c div 0x40 mod 0x40), of_nat (0x80 + c mod 0x40)])"

definition pair_cp :: "16 word \<Rightarrow> 16 word \<Rightarrow> nat" where
  "pair_cp u v = 0x10000 + (unat u - 0xD800) * 0x400 + (unat v - 0xDC00)"

text \<open>A code unit that is not the first half of a pair: an unpaired surrogate is written as
  U+FFFD (EF BF BD).\<close>
definition enc_unit :: "16 word \<Rightarrow> byte list" where
  "enc_unit u = (if is_high u \<or> is_low u then [0xEF, 0xBF, 0xBD] else enc_cp (unat u))"

text \<open>The bytes Node writes for a string under the encoding \<^verbatim>\<open>'utf8'\<close>.\<close>
fun utf8_encode :: "js_string \<Rightarrow> byte list" where
  "utf8_encode (u # v # us) =
     (if is_high u \<and> is_low v then enc_cp (pair_cp u v) @ utf8_encode us
      else enc_unit u @ utf8_encode (v # us))"
| "utf8_encode [u] = enc_unit u"
| "utf8_encode [] = []"

definition cont :: "byte \<Rightarrow> bool" where
  "cont b = (0x80 \<le> unat b \<and> unat b \<le> 0xBF)"

text \<open>The range allowed for the byte after a three- or four-byte lead.\<close>
definition second_ok :: "nat \<Rightarrow> byte \<Rightarrow> bool" where
  "second_ok lead b =
     (let n = unat b in
      if lead = 0xE0 then 0xA0 \<le> n \<and> n \<le> 0xBF
      else if lead = 0xED then 0x80 \<le> n \<and> n \<le> 0x9F
      else if lead = 0xF0 then 0x90 \<le> n \<and> n \<le> 0xBF
      else if lead = 0xF4 then 0x80 \<le> n \<and> n \<le> 0x8F
      else 0x80 \<le> n \<and> n \<le> 0xBF)"

definition units_of_cp :: "nat \<Rightarrow> js_string" where
  "units_of_cp c =
     (if c < 0x10000 then [of_nat c]
      else [of_nat (0xD800 + (c - 0x10000) div 0x400), of_nat (0xDC00 + (c - 0x10000) mod 0x400)])"

text \<open>The string Node reads from bytes under \<^verbatim>\<open>'utf8'\<close> (\<^verbatim>\<open>buf.toString()\<close>, and the output
  side of a decipher): every maximal ill-formed prefix becomes one U+FFFD and decoding goes
  on at the byte that broke the sequence.\<close>
fun utf8_decode :: "byte list \<Rightarrow> js_string" where
  "utf8_decode [] = []"
| "utf8_decode (b # bs) =
     (let n = unat b in
      if n < 0x80 then of_nat n # utf8_decode bs
      else if 0xC2 \<le> n \<and> n \<le> 0xDF then
        (case bs of
           [] \<Rightarrow> [0xFFFD]
         | b1 # r1 \<Rightarrow>
             if cont b1 then of_nat ((n - 0xC0) * 0x40 + (unat b1 - 0x80)) # utf8_decode r1
             else 0xFFFD # utf8_decode bs)
      else if 0xE0 \<le> n \<and> n \<le> 0xEF then
        (case bs of
           [] \<Rightarrow> [0xFFFD]
         | b1 # r1 \<Rightarrow>
             if second_ok n b1 then
               (case r1 of
                  [] \<Rightarrow> [0xFFFD]
                | b2 # r2 \<Rightarrow>
                    if cont b2 then
                      of_nat ((n - 0xE0) * 0x1000 + (unat b1 - 0x80) * 0x40 + (unat b2 - 0x80))
                        # utf8_decode r2
                    else 0xFFFD # utf8_decode r1)
             else 0xFFFD # utf8_decode bs)
      else if 0xF0 \<le> n \<and> n \<le> 0xF4 then
        (case bs of
           [] \<Rightarrow> [0xFFFD]
         | b1 # r1 \<Rightarrow>
             if second_ok n b1 then
               (case r1 of
                  [] \<Rightarrow> [0xFFFD]
                | b2 # r2 \<Rightarrow>
                    if cont b2 then
                      (case r2 of
                         [] \<Rightarrow> [0xFFFD]
                       | b3 # r3 \<Rightarrow>
                           if cont b3 then
                             units_of_cp ((n - 0xF0) * 0x40000 + (unat b1 - 0x80) * 0x1000
                                          + (unat b2 - 0x80) * 0x40 + (unat b3 - 0x80))
                               @ utf8_decode r3
                           else 0xFFFD # utf8_decode r2)
                    else 0xFFFD # utf8_decode r1)
             else 0xFFFD # utf8_decode bs)
      else 0xFFFD # utf8_decode bs)"

text \<open>A string with no unpaired surrogate.\<close>
fun well_formed :: "js_string \<Rightarrow> bool" where
  "well_formed (u # v # us) =
     (if is_high u then is_low v \<and> well_formed us
      else \<not> is_low u \<and> well_formed (v # us))"
| "well_formed [u] = (\<not> is_high u \<and> \<not> is_low u)"
| "well_formed [] = True"

section \<open>AES-256 in CBC mode (FIPS 197, PKCS#7 padding), as OpenSSL runs it for Node\<close>

definition sbox_table :: "byte list" where
  "sbox_table =
    [0x63, 0x7c, 0x77, 0x7b, 0xf2, 0x6b, 0x6f, 0xc5, 0x30, 0x01, 0x67, 0x2b, 0xfe, 0xd7, 0xab, 0x76,
     0xca, 0x82, 0xc9, 0x7d, 0xfa, 0x59, 0x47, 0xf0, 0xad, 0xd4, 0xa2, 0xaf, 0x9c, 0xa4, 0x72, 0xc0,
     0xb7, 0xfd, 0x93, 0x26, 0x36, 0x3f, 0xf7, 0xcc, 0x34, 0xa5, 0xe5, 0xf1, 0x71, 0xd8, 0x31, 0x15,
     0x04, 0xc7, 0x23, 0xc3, 0x18, 0x96, 0x05, 0x9a, 0x07, 0x12, 0x80, 0xe2, 0xeb, 0x27, 0xb2, 0x75,
     0x09, 0x83, 0x2c, 0x1a, 0x1b, 0x6e, 0x5a, 0xa0, 0x52, 0x3b, 0xd6, 0xb3, 0x29, 0xe3, 0x2f, 0x84,
     0x53, 0xd1, 0x00, 0xed, 0x20, 0xfc, 0xb1, 0x5b, 0x6a, 0xcb, 0xbe, 0x39, 0x4a, 0x4c, 0x58, 0xcf,
     0xd0, 0xef, 0xaa, 0xfb, 0x43, 0x4d, 0x33, 0x85, 0x45, 0xf9, 0x02, 0x7f, 0x50, 0x3c, 0x9f, 0xa8,
     0x51, 0xa3, 0x40, 0x8f, 0x92, 0x9d, 0x38, 0xf5, 0xbc, 0xb6, 0xda, 0x21, 0x10, 0xff, 0xf3, 0xd2,
     0xcd, 0x0c, 0x13, 0xec, 0x5f, 0x97, 0x44, 0x17, 0xc4, 0xa7, 0x7e, 0x3d, 0x64, 0x5d, 0x19, 0x73,
     0x60, 0x81, 0x4f, 0xdc, 0x22, 0x2a, 0x90, 0x88, 0x46, 0xee, 0xb8, 0x14, 0xde, 0x5e, 0x0b, 0xdb,
     0xe0, 0x32, 0x3a, 0x0a, 0x49, 0x06, 0x24, 0x5c, 0xc2, 0xd3, 0xac, 0x62, 0x91, 0x95, 0xe4, 0x79,
     0xe7, 0xc8, 0x37, 0x6d, 0x8d, 0xd5, 0x4e, 0xa9, 0x6c, 0x56, 0xf4, 0xea, 0x65, 0x7a, 0xae, 0x08,
     0xba, 0x78, 0x25, 0x2e, 0x1c, 0xa6, 0xb4, 0xc6, 0xe8, 0xdd, 0x74, 0x1f, 0x4b, 0xbd, 0x8b, 0x8a,
     0x70, 0x3e, 0xb5, 0x66, 0x48, 0x03, 0xf6, 0x0e, 0x61, 0x35, 0x57, 0xb9, 0x86, 0xc1, 0x1d, 0x9e,
     0xe1, 0xf8, 0x98, 0x11, 0x69, 0xd9, 0x8e, 0x94, 0x9b, 0x1e, 0x87, 0xe9, 0xce, 0x55, 0x28, 0xdf,
     0x8c, 0xa1, 0x89, 0x0d, 0xbf, 0xe6, 0x42, 0x68, 0x41, 0x99, 0x2d, 0x0f, 0xb0, 0x54, 0xbb, 0x16]"

definition inv_sbox_table :: "byte list" where
  "inv_sbox_table =
    [0x52, 0x09, 0x6a, 0xd5, 0x30, 0x36, 0xa5, 0x38, 0xbf, 0x40, 0xa3, 0x9e, 0x81, 0xf3, 0xd7, 0xfb,
     0x7c, 0xe3, 0x39, 0x82, 0x9b, 0x2f, 0xff, 0x87, 0x34, 0x8e, 0x43, 0x44, 0xc4, 0xde, 0xe9, 0xcb,
     0x54, 0x7b, 0x94, 0x32, 0xa6, 0xc2, 0x23, 0x3d, 0xee, 0x4c, 0x95, 0x0b, 0x42, 0xfa, 0xc3, 0x4e,
     0x08, 0x2e, 0xa1, 0x66, 0x28, 0xd9, 0x24, 0xb2, 0x76, 0x5b, 0xa2, 0x49, 0x6d, 0x8b, 0xd1, 0x25,
     0x72, 0xf8, 0xf6, 0x64, 0x86, 0x68, 0x98, 0x16, 0xd4, 0xa4, 0x5c, 0xcc, 0x5d, 0x65, 0xb6, 0x92,
     0x6c, 0x70, 0x48, 0x50, 0xfd, 0xed, 0xb9, 0xda, 0x5e, 0x15, 0x46, 0x57, 0xa7, 0x8d, 0x9d, 0x84,
     0x90, 0xd8, 0xab, 0x00, 0x8c, 0xbc, 0xd3, 0x0a, 0xf7, 0xe4, 0x58, 0x05, 0xb8, 0xb3, 0x45, 0x06,
     0xd0, 0x2c, 0x1e, 0x8f, 0xca, 0x3f, 0x0f, 0x02, 0xc1, 0xaf, 0xbd, 0x03, 0x01, 0x13, 0x8a, 0x6b,
     0x3a, 0x91, 0x11, 0x41, 0x4f, 0x67, 0xdc, 0xea, 0x97, 0xf2, 0xcf, 0xce, 0xf0, 0xb4, 0xe6, 0x73,
     0x96, 0xac, 0x74, 0x22, 0xe7, 0xad, 0x35, 0x85, 0xe2, 0xf9, 0x37, 0xe8, 0x1c, 0x75, 0xdf, 0x6e,
     0x47, 0xf1, 0x1a, 0x71, 0x1d, 0x29, 0xc5, 0x89, 0x6f, 0xb7, 0x62, 0x0e, 0xaa, 0x18, 0xbe, 0x1b,
     0xfc, 0x56, 0x3e, 0x4b, 0xc6, 0xd2, 0x79, 0x20, 0x9a, 0xdb, 0xc0, 0xfe, 0x78, 0xcd, 0x5a, 0xf4,
     0x1f, 0xdd, 0xa8, 0x33, 0x88, 0x07, 0xc7, 0x31, 0xb1, 0x12, 0x10, 0x59, 0x27, 0x80, 0xec, 0x5f,
     0x60, 0x51, 0x7f, 0xa9, 0x19, 0xb5, 0x4a, 0x0d, 0x2d, 0xe5, 0x7a, 0x9f, 0x93, 0xc9, 0x9c, 0xef,
     0xa0, 0xe0, 0x3b, 0x4d, 0xae, 0x2a, 0xf5, 0xb0, 0xc8, 0xeb, 0xbb, 0x3c, 0x83, 0x53, 0x99, 0x61,
     0x17, 0x2b, 0x04, 0x7e, 0xba, 0x77, 0xd6, 0x26, 0xe1, 0x69, 0x14, 0x63, 0x55, 0x21, 0x0c, 0x7d]"

definition sbox :: "byte \<Rightarrow> byte" where
  "sbox b = sbox_table ! unat b"

definition inv_sbox :: "byte \<Rightarrow> byte" where
  "inv_sbox b = inv_sbox_table ! unat b"

definition xtime :: "byte \<Rightarrow> byte" where
  "xtime b = push_bit 1 b XOR (if bit b 7 then 0x1b else 0)"

definition SubBytes :: "byte list \<Rightarrow> byte list" where
  "SubBytes st = map sbox st"

definition InvSubBytes :: "byte list \<Rightarrow> byte list" where
  "InvSubBytes st = map inv_sbox st"

text \<open>The state is kept in the order of the input bytes, column after column.\<close>
fun ShiftRows :: "byte list \<Rightarrow> byte list" where
  "ShiftRows [s0, s1, s2, s3, s4, s5, s6, s7, s8, s9, s10, s11, s12, s13, s14, s15] =
     [s0, s5, s10, s15, s4, s9, s14, s3, s8, s13, s2, s7, s12, s1, s6, s11]"
| "ShiftRows st = st"

fun InvShiftRows :: "byte list \<Rightarrow> byte list" where
  "InvShiftRows [s0, s1, s2, s3, s4, s5, s6, s7, s8, s9, s10, s11, s12, s13, s14, s15] =
     [s0, s13, s10, s7, s4, s1, s14, s11, s8, s5, s2, s15, s12, s9, s6, s3]"
| "InvShiftRows st = st"

definition mul2 :: "byte \<Rightarrow> byte" where "mul2 b = xtime b"
definition mul3 :: "byte \<Rightarrow> byte" where "mul3 b = xtime b XOR b"
definition mul9 :: "byte \<Rightarrow> byte" where "mul9 b = xtime (xtime (xtime b)) XOR b"
definition mul11 :: "byte \<Rightarrow> byte" where
  "mul11 b = xtime (xtime (xtime b)) XOR xtime b XOR b"
definition mul13 :: "byte \<Rightarrow> byte" where
  "mul13 b = xtime (xtime (xtime b)) XOR xtime (xtime b) XOR b"
definition mul14 :: "byte \<Rightarrow> byte" where
  "mul14 b = xtime (xtime (xtime b)) XOR xtime (xtime b) XOR xtime b"

fun MixColumns :: "byte list \<Rightarrow> byte list" where
  "MixColumns (a0 # a1 # a2 # a3 # rest) =
     (mul2 a0 XOR mul3 a1 XOR a2 XOR a3) #
     (a0 XOR mul2 a1 XOR mul3 a2 XOR a3) #
     (a0 XOR a1 XOR mul2 a2 XOR mul3 a3) #
     (mul3 a0 XOR a1 XOR a2 XOR mul2 a3) # MixColumns rest"
| "MixColumns st = st"

fun InvMixColumns :: "byte list \<Rightarrow> byte list" where
  "InvMixColumns (a0 # a1 # a2 # a3 # rest) =
     (mul14 a0 XOR mul11 a1 XOR mul13 a2 XOR mul9 a3) #
     (mul9 a0 XOR mul14 a1 XOR mul11 a2 XOR mul13 a3) #
     (mul13 a0 XOR mul9 a1 XOR mul14 a2 XOR mul11 a3) #
     (mul11 a0 XOR mul13 a1 XOR mul9 a2 XOR mul14 a3) # InvMixColumns rest"
| "InvMixColumns st = st"

definition xor_bytes :: "byte list \<Rightarrow> byte list \<Rightarrow> byte list" where
  "xor_bytes xs ys = map2 (XOR) xs ys"

definition AddRoundKey :: "byte list \<Rightarrow> byte list \<Rightarrow> byte list" where
  "AddRoundKey st rk = xor_bytes st rk"

function chunks :: "nat \<Rightarrow> 'a list \<Rightarrow> 'a list list" where
  "chunks n xs = (if xs = [] \<or> n = 0 then [] else take n xs # chunks n (drop n xs))"
  by pat_completeness auto
termination
  by (relation "measure (\<lambda>(n, xs). length xs)") auto

declare chunks.simps [simp del]

definition Rcon :: "byte list" where
  "Rcon = [0x00, 0x01, 0x02, 0x04, 0x08, 0x10, 0x20, 0x40]"

text \<open>Word \<open>i\<close> of the key schedule for an eight-word key, from the words before it.\<close>
definition next_word :: "nat \<Rightarrow> byte list list \<Rightarrow> byte list" where
  "next_word i w =
     (let temp = w ! (i - 1)
      in xor_bytes (w ! (i - 8))
           (if i mod 8 = 0 then xor_bytes (map sbox (rotate1 temp)) [Rcon ! (i div 8), 0, 0, 0]
            else if i mod 8 = 4 then map sbox temp
            else temp))"

definition KeyExpansion :: "byte list \<Rightarrow> byte list list" where
  "KeyExpansion key = fold (\<lambda>i w. w @ [next_word i w]) [8..<60] (chunks 4 key)"

definition round_key :: "byte list list \<Rightarrow> nat \<Rightarrow> byte list" where
  "round_key w r = concat (take 4 (drop (4 * r) w))"

definition Cipher :: "byte list list \<Rightarrow> byte list \<Rightarrow> byte list" where
  "Cipher w blk =
     (let st = AddRoundKey blk (round_key w 0);
          st = fold (\<lambda>r s. AddRoundKey (MixColumns (ShiftRows (SubBytes s))) (round_key w r))
                    [1..<14] st
      in AddRoundKey (ShiftRows (SubBytes st)) (round_key w 14))"

definition InvCipher :: "byte list list \<Rightarrow> byte list \<Rightarrow> byte list" where
  "InvCipher w blk =
     (let st = AddRoundKey blk (round_key w 14);
          st = fold (\<lambda>r s. InvMixColumns (AddRoundKey (InvSubBytes (InvShiftRows s))
                                                        (round_key w r)))
                    (rev [1..<14]) st
      in AddRoundKey (InvSubBytes (InvShiftRows st)) (round_key w 0))"

text \<open>PKCS#7: between one and sixteen bytes, each holding their number.\<close>
definition pkcs7_pad :: "byte list \<Rightarrow> byte list" where
  "pkcs7_pad m = (let n = 16 - length m mod 16 in m @ replicate n (of_nat n))"

definition pkcs7_unpad :: "byte list \<Rightarrow> byte list option" where
  "pkcs7_unpad m =
     (if m = [] then None
      else let n = unat (last m)
           in if n = 0 \<or> 16 < n \<or> length m < n then None
              else if drop (length m - n) m = replicate n (last m)
                   then Some (take (length m - n) m)
                   else None)"

fun cbc_encrypt :: "byte list list \<Rightarrow> byte list \<Rightarrow> byte list list \<Rightarrow> byte list" where
  "cbc_encrypt w prev [] = []"
| "cbc_encrypt w prev (b # bs) =
     (let c = Cipher w (xor_bytes b prev) in c @ cbc_encrypt w c bs)"

fun cbc_decrypt :: "byte list list \<Rightarrow> byte list \<Rightarrow> byte list list \<Rightarrow> byte list" where
  "cbc_decrypt w prev [] = []"
| "cbc_decrypt w prev (c # cs) = xor_bytes (InvCipher w c) prev @ cbc_decrypt w c cs"

section \<open>utils/encryption.js\<close>

text \<open>What the libraries and the JavaScript engine throw.\<close>
datatype js_error =
    ERR_CRYPTO_INVALID_IV
  | ERR_CRYPTO_INVALID_KEYLEN
  | ERR_INVALID_ARG_TYPE
  | ERR_INVALID_ARG_VALUE
  | ERR_OSSL_WRONG_FINAL_BLOCK_LENGTH
  | ERR_OSSL_BAD_DECRYPT
  | E11000_DUPLICATE_KEY
  | BAD_SECRET_KEY_SIZE
  | INVALID_SECRET_KEY
  | TypeError_not_a_function
  | TypeError_undefined
  | ReferenceError_not_defined
  | ValidationError

text \<open>\<^verbatim>\<open>encryptPrivateKey\<close>. The argument \<open>iv\<close> is what \<^verbatim>\<open>crypto.randomBytes(16)\<close> returned.
  \<^verbatim>\<open>createCipheriv\<close> throws on an IV that is not 16 bytes and on a key that is not 32 bytes.\<close>
definition encryptPrivateKey :: "byte list \<Rightarrow> js_string \<Rightarrow> js_string \<Rightarrow> js_error + js_string" where
  "encryptPrivateKey iv privateKey encryptionKey =
     (let key = Buffer_from_hex encryptionKey
      in if length iv \<noteq> 16 then Inl ERR_CRYPTO_INVALID_IV
         else if length key \<noteq> 32 then Inl ERR_CRYPTO_INVALID_KEYLEN
         else let encrypted = toString_hex
                    (cbc_encrypt (KeyExpansion key) iv (chunks 16 (pkcs7_pad (utf8_encode privateKey))))
              in Inr (toString_hex iv @ js '':'' @ encrypted))"

text \<open>\<^verbatim>\<open>decryptPrivateKey\<close>. \<^verbatim>\<open>parts[1]\<close> is \<^verbatim>\<open>undefined\<close> when the text holds no colon, and
  \<^verbatim>\<open>decipher.update\<close> throws on it, as it does on a hexadecimal string of odd length;
  \<^verbatim>\<open>decipher.final\<close> throws when the data is not a positive number of whole blocks or the
  padding is wrong.\<close>
definition decryptPrivateKey :: "js_string \<Rightarrow> js_string \<Rightarrow> js_error + js_string" where
  "decryptPrivateKey encryptedData encryptionKey =
     (let parts = split 58 encryptedData;
          iv = Buffer_from_hex (hd parts);
          key = Buffer_from_hex encryptionKey
      in if length iv \<noteq> 16 then Inl ERR_CRYPTO_INVALID_IV
         else if length key \<noteq> 32 then Inl ERR_CRYPTO_INVALID_KEYLEN
         else (case tl parts of
                 [] \<Rightarrow> Inl ERR_INVALID_ARG_TYPE
               | encrypted # _ \<Rightarrow>
                   if odd (length encrypted) then Inl ERR_INVALID_ARG_VALUE
                   else let ct = Buffer_from_hex encrypted
                        in if ct = [] \<or> length ct mod 16 \<noteq> 0
                           then Inl ERR_OSSL_WRONG_FINAL_BLOCK_LENGTH
                           else (case pkcs7_unpad (cbc_decrypt (KeyExpansion key) iv (chunks 16 ct)) of
                                   None \<Rightarrow> Inl ERR_OSSL_BAD_DECRYPT
                                 | Some m \<Rightarrow> Inr (utf8_decode m))))"

text \<open>The bytes between the key schedule and the hexadecimal text of a sealed secret.\<close>
definition ciphertext :: "byte list \<Rightarrow> js_string \<Rightarrow> js_string \<Rightarrow> byte list" where
  "ciphertext iv privateKey encryptionKey =
     cbc_encrypt (KeyExpansion (Buffer_from_hex encryptionKey)) iv
       (chunks 16 (pkcs7_pad (utf8_encode privateKey)))"

section \<open>models/User.js: the documents and the store\<close>

datatype json =
    JString js_string
  | JNumber nat
  | JBool bool
  | JNull
  | JArray "json list"
  | JObject "(string \<times> json) list"

record response =
  status :: nat
  body :: json

text \<open>\<^verbatim>\<open>walletSchema\<close>: the elements of \<^verbatim>\<open>wallets.ethereum\<close> and \<^verbatim>\<open>wallets.solana\<close>.\<close>
record stored_wallet =
  w_address :: js_string
  w_encryptedPrivateKey :: js_string
  w_name :: js_string
  w_createdAt :: nat

text \<open>The nested path \<^verbatim>\<open>wallets\<close> of \<^verbatim>\<open>userSchema\<close>: an object with two arrays.\<close>
record wallet_paths =
  ethereum :: "stored_wallet list"
  solana :: "stored_wallet list"

text \<open>\<^verbatim>\<open>addressBookEntrySchema\<close>. A path that was never set is \<open>None\<close>.\<close>
record address_entry =
  entry_name :: "js_string option"
  entry_address :: "js_string option"
  entry_network :: "js_string option"
  entry_notes :: "js_string option"
  entry_createdAt :: nat

text \<open>\<^verbatim>\<open>userSchema\<close>, with the identifier of the document. The paths \<^verbatim>\<open>preferences\<close>,
  \<^verbatim>\<open>createdAt\<close> and \<^verbatim>\<open>lastLogin\<close> are left out: they are optional or have defaults, and none of
  the controllers below reads or writes them.\<close>
record user =
  uid :: nat
  email :: "js_string option"
  password :: js_string
  username :: js_string
  wallets :: wallet_paths
  addressBook :: "address_entry list"

type_synonym db = "user list"

text \<open>The objects the controllers build, and expect to find in \<^verbatim>\<open>user.wallets\<close>.\<close>
record wallet =
  blockchain :: js_string
  address :: js_string
  privateKey :: js_string
  isDefault :: bool
  label :: js_string
  createdAt :: "nat option"

text \<open>The objects the address-book controllers build.\<close>
record entry_object =
  o_label :: js_string
  o_address :: js_string
  o_blockchain :: js_string
  o_notes :: js_string
  o_createdAt :: nat

text \<open>The argument of \<^verbatim>\<open>new User\<close> in \<^verbatim>\<open>registerUser\<close>.\<close>
record user_object =
  o_username :: js_string
  o_password :: js_string
  o_salt :: js_string
  o_recoveryPhrase :: js_string
  o_wallets :: "wallet list"
  o_addressBook :: "address_entry list"

text \<open>The libraries the controllers call: PBKDF2 and bcrypt, the token signer, the key
  derivations and the message signature of ethers, the key derivation of the Solana SDK, its
  Base58 encoding, the conversion \<^verbatim>\<open>Number\<close> followed by the store into a \<^verbatim>\<open>Uint8Array\<close>, and
  the two address validators.\<close>
record libs =
  pbkdf2_sha512 :: "js_string \<Rightarrow> js_string \<Rightarrow> nat \<Rightarrow> nat \<Rightarrow> byte list"
  bcrypt_hash :: "js_string \<Rightarrow> byte list \<Rightarrow> js_string"
  bcrypt_compare :: "js_string \<Rightarrow> js_string \<Rightarrow> bool"
  jwt_sign :: "nat \<Rightarrow> js_string \<Rightarrow> js_string"
  fromPhrase :: "js_string \<Rightarrow> js_string \<times> js_string"
  ethers_signMessage :: "js_string \<Rightarrow> js_string \<Rightarrow> js_error + js_string"
  base58 :: "byte list \<Rightarrow> js_string"
  ed25519_public :: "byte list \<Rightarrow> byte list"
  Number_uint8 :: "js_string \<Rightarrow> byte"
  isAddress :: "js_string \<Rightarrow> bool"
  isPublicKey :: "js_string \<Rightarrow> bool"
  error_message :: "js_error \<Rightarrow> js_string"
  error_details :: "js_error \<Rightarrow> json"

text \<open>What the random source, the key generators and the clock return during one request.\<close>
record env =
  new_id :: nat
  salt_bytes :: "byte list"
  bcrypt_salt :: "byte list"
  hook_salt :: "byte list"
  mnemonic :: js_string
  eth_privateKey :: js_string
  eth_address :: js_string
  sol_secretKey :: "byte list"
  random_iv :: "nat \<Rightarrow> byte list"
  now :: nat

definition findOne :: "db \<Rightarrow> js_string \<Rightarrow> user option" where
  "findOne db name = find (\<lambda>u. username u = name) db"

definition findById :: "db \<Rightarrow> nat \<Rightarrow> user option" where
  "findById db i = find (\<lambda>u. uid u = i) db"

text \<open>A value is truthy when it is present and not the empty string. The validator
  \<^verbatim>\<open>required\<close> of a string path accepts exactly the truthy values.\<close>
definition truthy :: "js_string option \<Rightarrow> bool" where
  "truthy v = (case v of None \<Rightarrow> False | Some s \<Rightarrow> s \<noteq> [])"

subsection \<open>What a document does not have\<close>

text \<open>\<^verbatim>\<open>user.salt\<close> and \<^verbatim>\<open>user.recoveryPhrase\<close>: \<^verbatim>\<open>userSchema\<close> has no such path, so the
  property of a document is \<^verbatim>\<open>undefined\<close>. The same holds for \<^verbatim>\<open>entry.blockchain\<close> on an element
  of \<^verbatim>\<open>user.addressBook\<close>, whose schema calls the chain \<^verbatim>\<open>network\<close>.\<close>
definition salt :: "user \<Rightarrow> js_string option" where
  "salt u = None"

definition recoveryPhrase :: "user \<Rightarrow> js_string option" where
  "recoveryPhrase u = None"

definition entry_blockchain :: "address_entry \<Rightarrow> js_string option" where
  "entry_blockchain x = None"

text \<open>\<^verbatim>\<open>user.wallets\<close> is the nested object with the keys \<^verbatim>\<open>ethereum\<close> and \<^verbatim>\<open>solana\<close>, not an
  array: its properties \<^verbatim>\<open>find\<close>, \<^verbatim>\<open>findIndex\<close>, \<^verbatim>\<open>filter\<close>, \<^verbatim>\<open>map\<close>, \<^verbatim>\<open>forEach\<close> and \<^verbatim>\<open>push\<close> are
  \<^verbatim>\<open>undefined\<close>, and calling one of them throws a \<^verbatim>\<open>TypeError\<close>, whatever the arguments and
  whatever result the caller expects.\<close>
definition array_method :: "wallet_paths \<Rightarrow> js_error + 'a" where
  "array_method ws = Inl TypeError_not_a_function"

subsection \<open>Validation and \<^verbatim>\<open>save\<close>\<close>

definition validate_wallet :: "stored_wallet \<Rightarrow> bool" where
  "validate_wallet w = (w_address w \<noteq> [] \<and> w_encryptedPrivateKey w \<noteq> [])"

definition validate_entry :: "address_entry \<Rightarrow> bool" where
  "validate_entry x =
     (truthy (entry_name x) \<and> truthy (entry_address x) \<and> truthy (entry_network x)
      \<and> (entry_network x = Some (js ''ethereum'') \<or> entry_network x = Some (js ''solana'')))"

text \<open>The validators of \<^verbatim>\<open>userSchema\<close>: \<^verbatim>\<open>email\<close>, \<^verbatim>\<open>password\<close> and \<^verbatim>\<open>username\<close> are required, the
  password has at least eight code units, and every sub-document satisfies its schema.\<close>
definition validate :: "user \<Rightarrow> bool" where
  "validate u =
     (truthy (email u) \<and> password u \<noteq> [] \<and> 8 \<le> length (password u) \<and> username u \<noteq> []
      \<and> list_all validate_wallet (ethereum (wallets u))
      \<and> list_all validate_wallet (solana (wallets u))
      \<and> list_all validate_entry (addressBook u))"

text \<open>The \<^verbatim>\<open>pre('save')\<close> hook: a password that was modified is hashed, with a salt of its
  own.\<close>
definition pre_save :: "libs \<Rightarrow> env \<Rightarrow> bool \<Rightarrow> user \<Rightarrow> user" where
  "pre_save lib e modified u =
     (if modified then u\<lparr>password := bcrypt_hash lib (password u) (hook_salt e)\<rparr> else u)"

text \<open>\<^verbatim>\<open>save()\<close> on a new document: validation comes first, then the hook, then the insertion,
  which the unique indexes on \<^verbatim>\<open>email\<close> and \<^verbatim>\<open>username\<close> can refuse.\<close>
definition save_new :: "libs \<Rightarrow> env \<Rightarrow> user \<Rightarrow> db \<Rightarrow> js_error + db" where
  "save_new lib e u db =
     (if \<not> validate u then Inl ValidationError
      else if list_ex (\<lambda>x. uid x = uid u \<or> email x = email u \<or> username x = username u) db
      then Inl E11000_DUPLICATE_KEY
      else Inr (db @ [pre_save lib e True u]))"

text \<open>\<^verbatim>\<open>save()\<close> on a document that was read from the store; \<open>modified\<close> says whether the
  controller assigned to \<^verbatim>\<open>password\<close>.\<close>
definition save :: "libs \<Rightarrow> env \<Rightarrow> bool \<Rightarrow> user \<Rightarrow> db \<Rightarrow> js_error + db" where
  "save lib e modified u db =
     (if \<not> validate u then Inl ValidationError
      else Inr (map (\<lambda>x. if uid x = uid u then pre_save lib e modified u else x) db))"

text \<open>The white space that \<^verbatim>\<open>trim\<close> removes.\<close>
definition is_space :: "16 word \<Rightarrow> bool" where
  "is_space u =
     (unat u \<in> {0x09, 0x0A, 0x0B, 0x0C, 0x0D, 0x20, 0xA0, 0x1680, 0x2028, 0x2029, 0x202F,
                 0x205F, 0x3000, 0xFEFF}
      \<or> (0x2000 \<le> unat u \<and> unat u \<le> 0x200A))"

definition trim :: "js_string \<Rightarrow> js_string" where
  "trim s = rev (dropWhile is_space (rev (dropWhile is_space s)))"

text \<open>\<^verbatim>\<open>new User(...)\<close> on the object of \<^verbatim>\<open>registerUser\<close>. Strict mode keeps the paths of the
  schema, \<^verbatim>\<open>username\<close> (trimmed), \<^verbatim>\<open>password\<close> and \<^verbatim>\<open>addressBook\<close>, and drops \<^verbatim>\<open>salt\<close> and
  \<^verbatim>\<open>recoveryPhrase\<close>. The value given for the nested path \<^verbatim>\<open>wallets\<close> is an array: it has
  neither of the keys \<^verbatim>\<open>ethereum\<close> and \<^verbatim>\<open>solana\<close>, so both lists stay empty. No \<^verbatim>\<open>email\<close> is
  given.\<close>
definition new_User :: "nat \<Rightarrow> user_object \<Rightarrow> user" where
  "new_User i obj =
     \<lparr>uid = i, email = None, password = o_password obj, username = trim (o_username obj),
      wallets = \<lparr>ethereum = [], solana = []\<rparr>, addressBook = o_addressBook obj\<rparr>"

text \<open>An object pushed on \<^verbatim>\<open>user.addressBook\<close> becomes a sub-document: \<^verbatim>\<open>address\<close>, \<^verbatim>\<open>notes\<close> and
  \<^verbatim>\<open>createdAt\<close> are paths of its schema, \<^verbatim>\<open>label\<close> and \<^verbatim>\<open>blockchain\<close> are not and are dropped, and
  \<^verbatim>\<open>name\<close> and \<^verbatim>\<open>network\<close> are not set.\<close>
definition cast_entry :: "entry_object \<Rightarrow> address_entry" where
  "cast_entry obj =
     \<lparr>entry_name = None, entry_address = Some (o_address obj), entry_network = None,
      entry_notes = Some (o_notes obj), entry_createdAt = o_createdAt obj\<rparr>"

section \<open>The HTTP responses\<close>

definition msg :: "nat \<Rightarrow> string \<Rightarrow> response" where
  "msg code m = \<lparr>status = code, body = JObject [(''message'', JString (js m))]\<rparr>"

definition failure :: "libs \<Rightarrow> string \<Rightarrow> js_error \<Rightarrow> response" where
  "failure lib m e =
     \<lparr>status = 500,
      body = JObject [(''message'', JString (js m)), (''error'', JString (error_message lib e))]\<rparr>"

function decimal :: "nat \<Rightarrow> js_string" where
  "decimal n = (if n < 10 then [of_nat (48 + n)] else decimal (n div 10) @ [of_nat (48 + n mod 10)])"
  by pat_completeness auto
termination
  by (relation "measure id") auto

declare decimal.simps [simp del]

text \<open>\<^verbatim>\<open>toLowerCase\<close> on the letters A to Z. The controllers only compare its result with
  \<^verbatim>\<open>"ethereum"\<close> and \<^verbatim>\<open>"solana"\<close>, and no other character lowers to a letter of these words.\<close>
definition toLowerCase :: "js_string \<Rightarrow> js_string" where
  "toLowerCase s = map (\<lambda>u. if 65 \<le> unat u \<and> unat u \<le> 90 then u + 32 else u) s"

section \<open>controllers/userController.js\<close>

text \<open>\<^verbatim>\<open>generateEncryptionKey\<close>. \<^verbatim>\<open>crypto.pbkdf2\<close> throws on a salt that is \<^verbatim>\<open>undefined\<close>, and the
  promise is rejected.\<close>
definition generateEncryptionKey :: "libs \<Rightarrow> js_string \<Rightarrow> js_string option \<Rightarrow> js_error + js_string" where
  "generateEncryptionKey lib pw slt =
     (case slt of
        None \<Rightarrow> Inl ERR_INVALID_ARG_TYPE
      | Some s \<Rightarrow> Inr (toString_hex (pbkdf2_sha512 lib pw s 100000 32)))"

text \<open>\<^verbatim>\<open>registerUser\<close> up to the object it hands to \<^verbatim>\<open>new User\<close>. The three encryptions draw
  their IVs in the order of the source: the Ethereum key, the Solana key, the mnemonic.\<close>
definition newUser_object :: "libs \<Rightarrow> env \<Rightarrow> js_string \<Rightarrow> js_string \<Rightarrow> js_error + user_object" where
  "newUser_object lib e req_username req_password =
     (let slt = toString_hex (salt_bytes e);
          hashedPassword = bcrypt_hash lib req_password (bcrypt_salt e)
      in case generateEncryptionKey lib req_password (Some slt) of
           Inl err \<Rightarrow> Inl err
         | Inr encryptionKey \<Rightarrow>
      let ethWallet = fromPhrase lib (mnemonic e);
          solAddress = base58 lib (drop 32 (sol_secretKey e))
      in case encryptPrivateKey (random_iv e 0) (fst ethWallet) encryptionKey of
           Inl err \<Rightarrow> Inl err
         | Inr encryptedEthPrivateKey \<Rightarrow>
      (case encryptPrivateKey (random_iv e 1) (utf8_decode (sol_secretKey e)) encryptionKey of
           Inl err \<Rightarrow> Inl err
         | Inr encryptedSolPrivateKey \<Rightarrow>
      (case encryptPrivateKey (random_iv e 2) (mnemonic e) encryptionKey of
           Inl err \<Rightarrow> Inl err
         | Inr encryptedMnemonic \<Rightarrow>
             Inr \<lparr>o_username = req_username, o_password = hashedPassword, o_salt = slt,
                  o_recoveryPhrase = encryptedMnemonic,
                  o_wallets =
                    [\<lparr>blockchain = js ''ethereum'', address = snd ethWallet,
                      privateKey = encryptedEthPrivateKey, isDefault = True,
                      label = js ''Default ETH Wallet'', createdAt = None\<rparr>,
                     \<lparr>blockchain = js ''solana'', address = solAddress,
                      privateKey = encryptedSolPrivateKey, isDefault = True,
                      label = js ''Default SOL Wallet'', createdAt = None\<rparr>],
                  o_addressBook = []\<rparr>)))"

definition registerUser :: "libs \<Rightarrow> env \<Rightarrow> db \<Rightarrow> js_string \<Rightarrow> js_string \<Rightarrow> response \<times> db" where
  "registerUser lib e db req_username req_password =
     (case findOne db req_username of
        Some existingUser \<Rightarrow> (msg 400 ''Username already exists'', db)
      | None \<Rightarrow>
          (case newUser_object lib e req_username req_password of
             Inl err \<Rightarrow> (failure lib ''Server error'' err, db)
           | Inr obj \<Rightarrow>
               (case save_new lib e (new_User (new_id e) obj) db of
                  Inl err \<Rightarrow> (failure lib ''Server error'' err, db)
                | Inr db' \<Rightarrow>
                    (\<lparr>status = 201,
                      body = JObject
                        [(''message'', JString (js ''User registered successfully'')),
                         (''mnemonic'', JString (mnemonic e)),
                         (''addresses'',
                            JObject [(''ethereum'', JString (snd (fromPhrase lib (mnemonic e)))),
                                     (''solana'',
                                        JString (base58 lib (drop 32 (sol_secretKey e))))])]\<rparr>,
                     db'))))"

text \<open>\<^verbatim>\<open>defaultEthWallet?.address || null\<close>.\<close>
definition default_address :: "wallet option \<Rightarrow> json" where
  "default_address found =
     (case found of
        None \<Rightarrow> JNull
      | Some w \<Rightarrow> if address w = [] then JNull else JString (address w))"

text \<open>\<^verbatim>\<open>loginUser\<close>. After the token is signed the controller calls \<^verbatim>\<open>user.wallets.find\<close>. The
  key \<^verbatim>\<open>walletCount\<close> of the answer would hold \<^verbatim>\<open>user.wallets.length\<close>, which is \<^verbatim>\<open>undefined\<close> and
  is left out of the JSON text.\<close>
definition loginUser :: "libs \<Rightarrow> db \<Rightarrow> js_string \<Rightarrow> js_string \<Rightarrow> response" where
  "loginUser lib db req_username req_password =
     (case findOne db req_username of
        None \<Rightarrow> msg 404 ''User not found''
      | Some u \<Rightarrow>
          if \<not> bcrypt_compare lib req_password (password u) then msg 400 ''Invalid credentials''
          else
            let token = jwt_sign lib (uid u) (username u)
            in case array_method (wallets u) of
                 Inl err \<Rightarrow> failure lib ''Server error'' err
               | Inr defaultEthWallet \<Rightarrow>
                   (case array_method (wallets u) of
                      Inl err \<Rightarrow> failure lib ''Server error'' err
                    | Inr defaultSolWallet \<Rightarrow>
                        \<lparr>status = 200,
                         body = JObject
                           [(''message'', JString (js ''Login successful'')),
                            (''token'', JString token),
                            (''user'', JObject
                               [(''username'', JString (username u)),
                                (''defaultAddresses'',
                                   JObject [(''ethereum'', default_address defaultEthWallet),
                                            (''solana'', default_address defaultSolWallet)]),
                                (''addressBookCount'',
                                   JNumber (length (addressBook u)))])]\<rparr>))"

definition wallet_created :: "wallet \<Rightarrow> response" where
  "wallet_created w =
     \<lparr>status = 201,
      body = JObject
        [(''message'', JString (js ''Wallet created successfully'')),
         (''wallet'', JObject [(''blockchain'', JString (blockchain w)),
                               (''address'', JString (address w)),
                               (''label'', JString (label w))])]\<rparr>"

text \<open>\<^verbatim>\<open>label || `ETH Wallet ${user.wallets.filter(...).length + 1}`\<close>: the second operand is
  evaluated only when the label is not truthy.\<close>
definition label_or :: "js_string option \<Rightarrow> string \<Rightarrow> user \<Rightarrow> js_error + js_string" where
  "label_or req_label prefix u =
     (if truthy req_label then Inr (the req_label)
      else case array_method (wallets u) of
             Inl err \<Rightarrow> Inl err
           | Inr (same_chain :: wallet list) \<Rightarrow>
               Inr (js prefix @ decimal (length same_chain + 1)))"

text \<open>\<^verbatim>\<open>createAdditionalWallet\<close>. The encryption key is derived from the password of the request
  and \<^verbatim>\<open>user.salt\<close> before anything else; the new wallet is then pushed on \<^verbatim>\<open>user.wallets\<close> and
  the user saved.\<close>
definition createAdditionalWallet ::
    "libs \<Rightarrow> env \<Rightarrow> db \<Rightarrow> nat \<Rightarrow> js_string \<Rightarrow> js_string option \<Rightarrow> js_string \<Rightarrow> response \<times> db" where
  "createAdditionalWallet lib e db userId req_blockchain req_label req_password =
     (case findById db userId of
        None \<Rightarrow> (msg 404 ''User not found'', db)
      | Some u \<Rightarrow>
          (case generateEncryptionKey lib req_password (salt u) of
             Inl err \<Rightarrow> (failure lib ''Server error'' err, db)
           | Inr encryptionKey \<Rightarrow>
               let built =
                 (if toLowerCase req_blockchain = js ''ethereum'' then
                    (case encryptPrivateKey (random_iv e 0) (eth_privateKey e) encryptionKey of
                       Inl err \<Rightarrow> Inl (failure lib ''Server error'' err)
                     | Inr encrypted \<Rightarrow>
                         (case label_or req_label ''ETH Wallet '' u of
                            Inl err \<Rightarrow> Inl (failure lib ''Server error'' err)
                          | Inr l \<Rightarrow>
                              Inr \<lparr>blockchain = js ''ethereum'', address = eth_address e,
                                   privateKey = encrypted, isDefault = False, label = l,
                                   createdAt = Some (now e)\<rparr>))
                  else if toLowerCase req_blockchain = js ''solana'' then
                    (case encryptPrivateKey (random_iv e 0) (utf8_decode (sol_secretKey e))
                            encryptionKey of
                       Inl err \<Rightarrow> Inl (failure lib ''Server error'' err)
                     | Inr encrypted \<Rightarrow>
                         (case label_or req_label ''SOL Wallet '' u of
                            Inl err \<Rightarrow> Inl (failure lib ''Server error'' err)
                          | Inr l \<Rightarrow>
                              Inr \<lparr>blockchain = js ''solana'',
                                   address = base58 lib (drop 32 (sol_secretKey e)),
                                   privateKey = encrypted, isDefault = False, label = l,
                                   createdAt = Some (now e)\<rparr>))
                  else Inl (msg 400 ''Unsupported blockchain''))
               in case built of
                    Inl answer \<Rightarrow> (answer, db)
                  | Inr newWallet \<Rightarrow>
                      (case array_method (wallets u) of
                         Inl err \<Rightarrow> (failure lib ''Server error'' err, db)
                       | Inr pushed \<Rightarrow>
                           (case save lib e False (u\<lparr>wallets := pushed\<rparr>) db of
                              Inl err \<Rightarrow> (failure lib ''Server error'' err, db)
                            | Inr db' \<Rightarrow> (wallet_created newWallet, db')))))"

text \<open>\<^verbatim>\<open>setDefaultWallet\<close>. The first statement after the lookup of the user calls
  \<^verbatim>\<open>user.wallets.findIndex\<close>, the next one \<^verbatim>\<open>user.wallets.forEach\<close>; the assignment to
  \<^verbatim>\<open>user.wallets[walletIndex].isDefault\<close> after them reads an index of the nested object, which
  is \<^verbatim>\<open>undefined\<close>, and throws.\<close>
definition setDefaultWallet ::
    "libs \<Rightarrow> db \<Rightarrow> nat \<Rightarrow> js_string \<Rightarrow> js_string \<Rightarrow> response \<times> db" where
  "setDefaultWallet lib db userId walletAddress req_blockchain =
     (case findById db userId of
        None \<Rightarrow> (msg 404 ''User not found'', db)
      | Some u \<Rightarrow>
          (case array_method (wallets u) of
             Inl err \<Rightarrow> (failure lib ''Server error'' err, db)
           | Inr (walletIndex :: nat option) \<Rightarrow>
               (case walletIndex of
                  None \<Rightarrow> (msg 404 ''Wallet not found'', db)
                | Some k \<Rightarrow>
                    (case array_method (wallets u) of
                       Inl err \<Rightarrow> (failure lib ''Server error'' err, db)
                     | Inr (cleared :: unit) \<Rightarrow>
                         (failure lib ''Server error'' TypeError_undefined, db)))))"

definition recovered :: "string \<Rightarrow> js_string \<Rightarrow> response" where
  "recovered m phrase =
     \<lparr>status = 200,
      body = JObject [(''message'', JString (js m)), (''recoveryPhrase'', JString phrase)]\<rparr>"

text \<open>\<^verbatim>\<open>recoverWalletFromPhrase\<close>. \<^verbatim>\<open>decryptPrivateKey\<close> calls \<^verbatim>\<open>split\<close> on its first argument and
  throws when that is \<^verbatim>\<open>undefined\<close>. The wallets are re-encrypted inside \<^verbatim>\<open>user.wallets.map\<close>. Of
  the four assignments before \<^verbatim>\<open>save\<close>, those to \<^verbatim>\<open>salt\<close> and \<^verbatim>\<open>recoveryPhrase\<close> set no path of
  the schema, and the array assigned to \<^verbatim>\<open>wallets\<close> has neither of its keys.\<close>
definition recoverWalletFromPhrase ::
    "libs \<Rightarrow> env \<Rightarrow> db \<Rightarrow> js_string \<Rightarrow> js_string \<Rightarrow> js_string option \<Rightarrow> response \<times> db" where
  "recoverWalletFromPhrase lib e db req_username req_password newPassword =
     (case findOne db req_username of
        None \<Rightarrow> (msg 404 ''User not found'', db)
      | Some u \<Rightarrow>
          if \<not> bcrypt_compare lib req_password (password u)
          then (msg 401 ''Invalid credentials'', db)
          else
            (case generateEncryptionKey lib req_password (salt u) of
               Inl err \<Rightarrow> (failure lib ''Recovery failed'' err, db)
             | Inr encryptionKey \<Rightarrow>
            (case (case recoveryPhrase u of
                     None \<Rightarrow> Inl TypeError_undefined
                   | Some encryptedData \<Rightarrow> decryptPrivateKey encryptedData encryptionKey) of
               Inl err \<Rightarrow> (failure lib ''Recovery failed'' err, db)
             | Inr phrase \<Rightarrow>
                 if truthy newPassword then
                   let newSalt = toString_hex (salt_bytes e);
                       newHashedPassword = bcrypt_hash lib (the newPassword) (bcrypt_salt e)
                   in case generateEncryptionKey lib (the newPassword) (Some newSalt) of
                        Inl err \<Rightarrow> (failure lib ''Recovery failed'' err, db)
                      | Inr newEncryptionKey \<Rightarrow>
                   (case encryptPrivateKey (random_iv e 0) phrase newEncryptionKey of
                        Inl err \<Rightarrow> (failure lib ''Recovery failed'' err, db)
                      | Inr newEncryptedMnemonic \<Rightarrow>
                   (case array_method (wallets u) of
                        Inl err \<Rightarrow> (failure lib ''Recovery failed'' err, db)
                      | Inr (updatedWallets :: wallet list) \<Rightarrow>
                   (case save lib e True
                           (u\<lparr>password := newHashedPassword,
                              wallets := \<lparr>ethereum = [], solana = []\<rparr>\<rparr>) db of
                        Inl err \<Rightarrow> (failure lib ''Recovery failed'' err, db)
                      | Inr db' \<Rightarrow>
                          (recovered ''Wallet recovered and password updated successfully''
                             phrase, db'))))
                 else (recovered ''Recovery phrase retrieved successfully'' phrase, db))))"

definition entry_json :: "js_string \<Rightarrow> js_string \<Rightarrow> js_string \<Rightarrow> js_string \<Rightarrow> json" where
  "entry_json l a b n =
     JObject [(''label'', JString l), (''address'', JString a), (''blockchain'', JString b),
              (''notes'', JString n)]"

text \<open>\<^verbatim>\<open>addAddressBookEntry\<close>. The search for an existing entry compares \<^verbatim>\<open>entry.blockchain\<close>
  with the chain of the request.\<close>
definition addAddressBookEntry ::
    "libs \<Rightarrow> env \<Rightarrow> db \<Rightarrow> nat \<Rightarrow> js_string \<Rightarrow> js_string \<Rightarrow> js_string \<Rightarrow> js_string option
       \<Rightarrow> response \<times> db" where
  "addAddressBookEntry lib e db userId req_label req_address req_blockchain req_notes =
     (case findById db userId of
        None \<Rightarrow> (msg 404 ''User not found'', db)
      | Some u \<Rightarrow>
          let isValid = (if req_blockchain = js ''ethereum'' then isAddress lib req_address
                         else if req_blockchain = js ''solana'' then isPublicKey lib req_address
                         else False)
          in if \<not> isValid
             then (\<lparr>status = 400,
                    body = JObject [(''message'', JString (js ''Invalid '' @ req_blockchain
                                                          @ js '' address format''))]\<rparr>, db)
             else
               (case find (\<lambda>entry. entry_address entry = Some req_address
                                   \<and> entry_blockchain entry = Some req_blockchain)
                       (addressBook u) of
                  Some existingEntry \<Rightarrow> (msg 400 ''Address already exists in address book'', db)
                | None \<Rightarrow>
                    let n = (if truthy req_notes then the req_notes else []);
                        pushed = addressBook u @
                          [cast_entry \<lparr>o_label = req_label, o_address = req_address,
                                       o_blockchain = req_blockchain, o_notes = n,
                                       o_createdAt = now e\<rparr>]
                    in case save lib e False (u\<lparr>addressBook := pushed\<rparr>) db of
                         Inl err \<Rightarrow> (failure lib ''Server error'' err, db)
                       | Inr db' \<Rightarrow>
                           (\<lparr>status = 201,
                             body = JObject
                               [(''message'', JString (js ''Address added to address book'')),
                                (''entry'',
                                   entry_json req_label req_address req_blockchain n)]\<rparr>,
                            db')))"

section \<open>The address-book controller (addBatchAddressBookEntries)\<close>

record batch_entry =
  b_label :: "js_string option"
  b_address :: "js_string option"
  b_blockchain :: "js_string option"
  b_notes :: "js_string option"

text \<open>One turn of the loop over the entries: the entries accepted so far and the rejected ones
  with their reasons.\<close>
definition batch_step ::
    "libs \<Rightarrow> env \<Rightarrow> user \<Rightarrow> batch_entry
       \<Rightarrow> entry_object list \<times> (batch_entry \<times> js_string) list
       \<Rightarrow> entry_object list \<times> (batch_entry \<times> js_string) list" where
  "batch_step lib e u entry acc =
     (let validEntries = fst acc; invalidEntries = snd acc
      in if \<not> truthy (b_label entry) \<or> \<not> truthy (b_address entry) \<or> \<not> truthy (b_blockchain entry)
         then (validEntries, invalidEntries @ [(entry, js ''Missing required fields'')])
         else
           let l = the (b_label entry); a = the (b_address entry); b = the (b_blockchain entry)
           in if toLowerCase b \<noteq> js ''ethereum'' \<and> toLowerCase b \<noteq> js ''solana''
              then (validEntries, invalidEntries @ [(entry, js ''Invalid blockchain'')])
              else if \<not> (if toLowerCase b = js ''ethereum'' then isAddress lib a
                          else isPublicKey lib a)
              then (validEntries,
                    invalidEntries @ [(entry, js ''Invalid '' @ b @ js '' address format'')])
              else if find (\<lambda>x. entry_address x = Some a \<and> entry_blockchain x = Some b)
                        (addressBook u) \<noteq> None
              then (validEntries,
                    invalidEntries @ [(entry, js ''Address already exists in address book'')])
              else if find (\<lambda>x. o_address x = a \<and> o_blockchain x = b) validEntries \<noteq> None
              then (validEntries, invalidEntries @ [(entry, js ''Duplicate address in batch'')])
              else (validEntries @
                      [\<lparr>o_label = l, o_address = a, o_blockchain = toLowerCase b,
                        o_notes = (if truthy (b_notes entry) then the (b_notes entry) else []),
                        o_createdAt = now e\<rparr>],
                    invalidEntries))"

definition field_json :: "string \<Rightarrow> js_string option \<Rightarrow> (string \<times> json) list" where
  "field_json k v = (case v of None \<Rightarrow> [] | Some s \<Rightarrow> [(k, JString s)])"

definition rejected_json :: "batch_entry \<times> js_string \<Rightarrow> json" where
  "rejected_json r =
     JObject (field_json ''label'' (b_label (fst r)) @ field_json ''address'' (b_address (fst r))
              @ field_json ''blockchain'' (b_blockchain (fst r))
              @ field_json ''notes'' (b_notes (fst r)) @ [(''reason'', JString (snd r))])"

definition addBatchAddressBookEntries ::
    "libs \<Rightarrow> env \<Rightarrow> db \<Rightarrow> nat \<Rightarrow> batch_entry list \<Rightarrow> response \<times> db" where
  "addBatchAddressBookEntries lib e db userId entries =
     (if entries = [] then (msg 400 ''Invalid entries format'', db)
      else case findById db userId of
        None \<Rightarrow> (msg 404 ''User not found'', db)
      | Some u \<Rightarrow>
          let acc = fold (batch_step lib e u) entries ([], []);
              validEntries = fst acc; invalidEntries = snd acc;
              answer =
                \<lparr>status = 200,
                 body = JObject
                   ([(''message'', JString (js ''Batch processing completed'')),
                     (''added'', JNumber (length validEntries)),
                     (''failed'', JNumber (length invalidEntries))]
                    @ (if invalidEntries = [] then []
                       else [(''invalidEntries'', JArray (map rejected_json invalidEntries))]))\<rparr>
          in if validEntries = [] then (answer, db)
             else (case save lib e False
                          (u\<lparr>addressBook := addressBook u @ map cast_entry validEntries\<rparr>) db of
                     Inl err \<Rightarrow> (failure lib ''Server error'' err, db)
                   | Inr db' \<Rightarrow> (answer, db')))"

section \<open>The Solana transfer controller (transferSOL), up to the first network call\<close>








section \<open>Sample data\<close>

text \<open>The text \<^verbatim>\<open>encryptPrivateKey\<close> returns on a 16-byte IV and a 32-byte key.\<close>
definition sealed :: "byte list \<Rightarrow> js_string \<Rightarrow> js_string \<Rightarrow> js_string" where
  "sealed v p k = toString_hex v @ js '':'' @ toString_hex (ciphertext v p k)"

text \<open>The output of PBKDF2-HMAC-SHA512 (100000 iterations, 32 bytes) for the password
  \<^verbatim>\<open>p1\<close> and the salt text \<^verbatim>\<open>000102030405060708090a0b0c0d0e0f\<close>, and zeros elsewhere.\<close>
definition sample_pbkdf2 :: "js_string \<Rightarrow> js_string \<Rightarrow> nat \<Rightarrow> nat \<Rightarrow> byte list" where
  "sample_pbkdf2 pw slt c n =
     (if slt = js ''000102030405060708090a0b0c0d0e0f'' \<and> pw = js ''p1'' then
        [0x45, 0xe8, 0x90, 0xe1, 0x72, 0xf3, 0x7e, 0x0f, 0x39, 0xe5, 0x39, 0x72, 0xe5,
        0xaf, 0x10, 0x1d, 0x49, 0x56, 0xbc, 0x77, 0xeb, 0x15, 0xae, 0x7c, 0xe8, 0x0f, 0x4d,
        0x94, 0x19, 0x43, 0xde, 0x19]
      else replicate 32 0)"

text \<open>Stand-ins for the other libraries: a hash that is recognised by \<open>bcrypt_compare\<close>, a
  fixed token, a fixed Ethereum key pair and signature, hexadecimal in place of Base58, a seed
  that is its own public key, decimal digits for \<^verbatim>\<open>Number\<close> (anything else counts as 0, the
  empty string included), and address checks on the shape only.\<close>
definition sample_number :: "js_string \<Rightarrow> byte" where
  "sample_number s =
     (if s \<noteq> [] \<and> list_all (\<lambda>u. 48 \<le> unat u \<and> unat u \<le> 57) s
      then of_nat (fold (\<lambda>u n. 10 * n + (unat u - 48)) s 0)
      else 0)"

definition sample_isAddress :: "js_string \<Rightarrow> bool" where
  "sample_isAddress s =
     (length s = 42 \<and> take 2 s = js ''0x'' \<and> list_all (\<lambda>u. hex_value u \<noteq> None) (drop 2 s)
      \<and> (list_all (\<lambda>u. \<not> (65 \<le> unat u \<and> unat u \<le> 70)) (drop 2 s)
         \<or> list_all (\<lambda>u. \<not> (97 \<le> unat u \<and> unat u \<le> 102)) (drop 2 s)))"

definition sample_libs :: libs where
  "sample_libs =
     \<lparr>pbkdf2_sha512 = sample_pbkdf2,
      bcrypt_hash = (\<lambda>pw s. js ''bcrypt:'' @ pw),
      bcrypt_compare = (\<lambda>pw h. h = js ''bcrypt:'' @ pw),
      jwt_sign = (\<lambda>i n. js ''token''),
      fromPhrase = (\<lambda>m. (js ''0x4c0883a69102937d6231471b5dbb6204fe5129617082792ae468d01a3f362318'',
                          js ''0x2c7536e3605d9c16a7a3d7b1898e529396a65c23'')),
      ethers_signMessage = (\<lambda>k m. Inr (js ''0xsignature'')),
      base58 = toString_hex,
      ed25519_public = (\<lambda>seed. seed),
      Number_uint8 = sample_number,
      isAddress = sample_isAddress,
      isPublicKey = (\<lambda>s. length s = 44),
      error_message = (\<lambda>err. js ''error''),
      error_details = (\<lambda>err. JString (js ''Unknown error''))\<rparr>"

text \<open>A Solana secret key as \<^verbatim>\<open>Keypair.generate\<close> may return it: 64 bytes.\<close>
definition sample_secret :: "byte list" where
  "sample_secret = map of_nat [100..<164]"


definition sample_env :: "nat \<Rightarrow> byte list \<Rightarrow> env" where
  "sample_env i s =
     \<lparr>new_id = i,
      salt_bytes = s,
      bcrypt_salt = [],
      hook_salt = [],
      mnemonic = js ''test test test test test test test test test test test junk'',
      eth_privateKey = js ''0x59c6995e998f97a5a0044966f0945389dc9e86dae88c7a8412f4603b6b78690d'',
      eth_address = js ''0x70997970c51812dc3a010c7d01b50e0d17dc79c8'',
      sol_secretKey = sample_secret,
      random_iv = (\<lambda>k. map of_nat [16 * (k + 1)..<16 * (k + 2)]),
      now = 1700000000\<rparr>"

definition salt0 :: "byte list" where
  "salt0 = [0x00, 0x01, 0x02, 0x03, 0x04, 0x05, 0x06, 0x07, 0x08, 0x09, 0x0a, 0x0b, 0x0c, 0x0d, 0x0e, 0x0f]"

text \<open>The user \<^verbatim>\<open>alice\<close>, the document that \<^verbatim>\<open>register\<close> of
  \<^verbatim>\<open>controllers/walletController.js\<close> stores for the user name \<^verbatim>\<open>alice\<close>, the email
  \<^verbatim>\<open>alice@example.com\<close> and the password \<^verbatim>\<open>correct horse\<close>: the three paths it gives to
  \<^verbatim>\<open>new User\<close>, the password hashed by the hook, and the defaults of the schema. The store that
  holds her alone.\<close>
definition sample_user :: user where
  "sample_user =
     \<lparr>uid = 1, email = Some (js ''alice@example.com''), password = js ''bcrypt:correct horse'',
      username = js ''alice'', wallets = \<lparr>ethereum = [], solana = []\<rparr>, addressBook = []\<rparr>"

definition sample_db :: db where
  "sample_db = [sample_user]"

section \<open>Properties of the string and cipher layers\<close>

lemma unat_of_nat_byte: "n < 256 \<Longrightarrow> unat (of_nat n :: byte) = n"
  by (simp add: unat_of_nat)

lemma unat_of_nat_unit: "n < 65536 \<Longrightarrow> unat (of_nat n :: 16 word) = n"
  by (simp add: unat_of_nat)

lemma unat_byte_less: "unat (b :: byte) < 256"
  using unsigned_less [of b, where 'a = nat] by simp

lemma unat_unit_less: "unat (u :: 16 word) < 65536"
  using unsigned_less [of u, where 'a = nat] by simp

subsection \<open>split\<close>

lemma split_no_sep: "sep \<notin> set xs \<Longrightarrow> split sep xs = [xs]"
  by (induction xs) auto

lemma split_at_first: "sep \<notin> set xs \<Longrightarrow> split sep (xs @ sep # ys) = xs # split sep ys"
  by (induction xs) auto



subsection \<open>hex\<close>

lemma unat_hex_digit: "n < 16 \<Longrightarrow> unat (hex_digit n) = (if n < 10 then 48 + n else 87 + n)"
  unfolding hex_digit_def by (simp add: unat_of_nat del: of_nat_add)

lemma hex_value_digit: "n < 16 \<Longrightarrow> hex_value (hex_digit n) = Some n"
  by (simp add: hex_value_def unat_hex_digit Let_def)

lemma hex_digit_not_colon: "n < 16 \<Longrightarrow> hex_digit n \<noteq> 58"
proof
  assume n: "n < 16" and e: "hex_digit n = 58"
  from e have "unat (hex_digit n) = 58" by simp
  with n show False
    by (simp add: unat_hex_digit split: if_splits)
qed

lemma Buffer_from_hex_toString: "Buffer_from_hex (toString_hex bs) = bs"
proof (induction bs)
  case Nil
  show ?case by (simp add: toString_hex_def)
next
  case (Cons b bs)
  have d: "unat b div 16 < 16" and m: "unat b mod 16 < 16"
    using unat_byte_less [of b] by auto
  have "16 * (unat b div 16) + unat b mod 16 = unat b" by simp
  then have "(of_nat (16 * (unat b div 16) + unat b mod 16) :: byte) = b"
    by (metis of_nat_unat ucast_id)
  with Cons d m show ?case
    by (simp add: toString_hex_def hex_value_digit)
qed

lemma colon_notin_hex: "58 \<notin> set (toString_hex bs)"
proof (induction bs)
  case Nil
  show ?case by (simp add: toString_hex_def)
next
  case (Cons b bs)
  have d: "unat b div 16 < 16" and m: "unat b mod 16 < 16"
    using unat_byte_less [of b] by auto
  from Cons hex_digit_not_colon [OF d] hex_digit_not_colon [OF m] show ?case
    by (auto simp: toString_hex_def)
qed

lemma length_toString_hex: "length (toString_hex bs) = 2 * length bs"
  by (induction bs) (auto simp: toString_hex_def)

subsection \<open>UTF-8 round trip\<close>

lemma decode_enc_cp1:
  assumes "c < 0x80"
  shows "utf8_decode (enc_cp c @ rest) = of_nat c # utf8_decode rest"
  using assms by (simp add: enc_cp_def unat_of_nat_byte)

lemma decode_enc_cp2:
  assumes "0x80 \<le> c" "c < 0x800"
  shows "utf8_decode (enc_cp c @ rest) = of_nat c # utf8_decode rest"
proof -
  define q where "q = c div 0x40"
  define l where "l = c mod 0x40"
  have c: "c = q * 0x40 + l" and l: "l < 0x40"
    by (simp_all add: q_def l_def)
  define B0 :: byte where "B0 = of_nat (0xC0 + q)"
  define B1 :: byte where "B1 = of_nat (0x80 + l)"
  have q: "2 \<le> q" "q \<le> 31"
    using assms c l by linarith+
  have b0: "unat B0 = 0xC0 + q"
    unfolding B0_def using q by (intro unat_of_nat_byte) simp
  have b1: "unat B1 = 0x80 + l"
    unfolding B1_def using l by (intro unat_of_nat_byte) simp
  have e: "enc_cp c = [B0, B1]"
    using assms by (simp add: enc_cp_def B0_def B1_def q_def l_def)
  have "utf8_decode ([B0, B1] @ rest) = of_nat c # utf8_decode rest"
    using q l by (simp add: b0 b1 cont_def Let_def c)
  then show ?thesis
    by (simp only: e)
qed

lemma split3: "(c::nat) = c div 0x1000 * 0x1000 + c div 0x40 mod 0x40 * 0x40 + c mod 0x40"
proof -
  have a: "c div 0x40 div 0x40 = c div 0x1000"
    by (simp add: div_mult2_eq [symmetric])
  have "c = c div 0x40 * 0x40 + c mod 0x40" by simp
  moreover have "c div 0x40 = c div 0x40 div 0x40 * 0x40 + c div 0x40 mod 0x40" by simp
  ultimately show ?thesis unfolding a by linarith
qed

lemma split4:
  "(c::nat) = c div 0x40000 * 0x40000 + c div 0x1000 mod 0x40 * 0x1000
              + c div 0x40 mod 0x40 * 0x40 + c mod 0x40"
proof -
  have a: "c div 0x1000 div 0x40 = c div 0x40000"
    by (simp add: div_mult2_eq [symmetric])
  have "c div 0x1000 = c div 0x1000 div 0x40 * 0x40 + c div 0x1000 mod 0x40" by simp
  with split3 [of c] show ?thesis unfolding a by linarith
qed

lemma decode_enc_cp3:
  assumes "0x800 \<le> c" "c < 0x10000" "\<not> (0xD800 \<le> c \<and> c < 0xE000)"
  shows "utf8_decode (enc_cp c @ rest) = of_nat c # utf8_decode rest"
proof -
  define q where "q = c div 0x1000"
  define m where "m = c div 0x40 mod 0x40"
  define l where "l = c mod 0x40"
  have c: "c = q * 0x1000 + m * 0x40 + l"
    unfolding q_def m_def l_def by (rule split3)
  have l: "l < 0x40" and m: "m < 0x40"
    by (simp_all add: m_def l_def)
  define B0 :: byte where "B0 = of_nat (0xE0 + q)"
  define B1 :: byte where "B1 = of_nat (0x80 + m)"
  define B2 :: byte where "B2 = of_nat (0x80 + l)"
  have q: "q \<le> 15"
    using assms c l m by linarith
  have q0: "q = 0 \<Longrightarrow> 0x20 \<le> m"
    using assms c l m by linarith
  have q13: "q = 13 \<Longrightarrow> m < 0x20"
    using assms c l m by linarith
  have b0: "unat B0 = 0xE0 + q"
    unfolding B0_def using q by (intro unat_of_nat_byte) simp
  have b1: "unat B1 = 0x80 + m"
    unfolding B1_def using m by (intro unat_of_nat_byte) simp
  have b2: "unat B2 = 0x80 + l"
    unfolding B2_def using l by (intro unat_of_nat_byte) simp
  have e: "enc_cp c = [B0, B1, B2]"
    using assms by (simp add: enc_cp_def B0_def B1_def B2_def q_def m_def l_def)
  have s: "second_ok (0xE0 + q) B1"
    using q q0 q13 m by (auto simp: second_ok_def b1 Let_def)
  have "utf8_decode ([B0, B1, B2] @ rest) = of_nat c # utf8_decode rest"
    using q l m s by (simp add: b0 b1 b2 cont_def Let_def c)
  then show ?thesis
    by (simp only: e)
qed

lemma decode_enc_cp4:
  assumes "0x10000 \<le> c" "c < 0x110000"
  shows "utf8_decode (enc_cp c @ rest) = units_of_cp c @ utf8_decode rest"
proof -
  define q where "q = c div 0x40000"
  define k where "k = c div 0x1000 mod 0x40"
  define m where "m = c div 0x40 mod 0x40"
  define l where "l = c mod 0x40"
  have c: "c = q * 0x40000 + k * 0x1000 + m * 0x40 + l"
    unfolding q_def k_def m_def l_def by (rule split4)
  have l: "l < 0x40" and m: "m < 0x40" and k: "k < 0x40"
    by (simp_all add: m_def l_def k_def)
  define B0 :: byte where "B0 = of_nat (0xF0 + q)"
  define B1 :: byte where "B1 = of_nat (0x80 + k)"
  define B2 :: byte where "B2 = of_nat (0x80 + m)"
  define B3 :: byte where "B3 = of_nat (0x80 + l)"
  have q: "q \<le> 4"
    using assms c l m k by linarith
  have q0: "q = 0 \<Longrightarrow> 0x10 \<le> k"
    using assms c l m k by linarith
  have q4: "q = 4 \<Longrightarrow> k < 0x10"
    using assms c l m k by linarith
  have b0: "unat B0 = 0xF0 + q"
    unfolding B0_def using q by (intro unat_of_nat_byte) simp
  have b1: "unat B1 = 0x80 + k"
    unfolding B1_def using k by (intro unat_of_nat_byte) simp
  have b2: "unat B2 = 0x80 + m"
    unfolding B2_def using m by (intro unat_of_nat_byte) simp
  have b3: "unat B3 = 0x80 + l"
    unfolding B3_def using l by (intro unat_of_nat_byte) simp
  have e: "enc_cp c = [B0, B1, B2, B3]"
    using assms by (simp add: enc_cp_def B0_def B1_def B2_def B3_def q_def k_def m_def l_def)
  have s: "second_ok (0xF0 + q) B1"
    using q q0 q4 k by (auto simp: second_ok_def b1 Let_def)
  have "utf8_decode ([B0, B1, B2, B3] @ rest)
        = units_of_cp (q * 0x40000 + k * 0x1000 + m * 0x40 + l) @ utf8_decode rest"
    using q l m k s by (simp add: b0 b1 b2 b3 cont_def Let_def)
  then show ?thesis
    by (simp only: e c [symmetric])
qed

lemma decode_enc_unit:
  assumes "\<not> is_high u" "\<not> is_low u"
  shows "utf8_decode (enc_unit u @ rest) = u # utf8_decode rest"
proof -
  let ?c = "unat u"
  have lt: "?c < 0x10000" using unat_unit_less [of u] by simp
  have ns: "\<not> (0xD800 \<le> ?c \<and> ?c < 0xE000)"
    using assms by (auto simp: is_high_def is_low_def)
  have "utf8_decode (enc_cp ?c @ rest) = of_nat ?c # utf8_decode rest"
  proof (cases "?c < 0x80")
    case True
    then show ?thesis by (rule decode_enc_cp1)
  next
    case False
    note F1 = this
    show ?thesis
    proof (cases "?c < 0x800")
      case True
      with F1 show ?thesis by (intro decode_enc_cp2) simp_all
    next
      case False
      with lt ns show ?thesis by (intro decode_enc_cp3) simp_all
    qed
  qed
  then show ?thesis
    using assms by (simp add: enc_unit_def)
qed

lemma units_of_pair:
  assumes "is_high u" "is_low v"
  shows "units_of_cp (pair_cp u v) = [u, v]"
proof -
  define a where "a = unat u - 0xD800"
  define b where "b = unat v - 0xDC00"
  have u: "unat u = 0xD800 + a" and a: "a < 0x400"
    using assms(1) by (auto simp: a_def is_high_def)
  have v: "unat v = 0xDC00 + b" and b: "b < 0x400"
    using assms(2) by (auto simp: b_def is_low_def)
  have p: "pair_cp u v = 0x10000 + a * 0x400 + b"
    by (simp add: pair_cp_def a_def b_def)
  have d: "(a * 0x400 + b) div 0x400 = a" and m: "(a * 0x400 + b) mod 0x400 = b"
    using b by simp_all
  have "units_of_cp (pair_cp u v) = [of_nat (unat u), of_nat (unat v)]"
    unfolding p units_of_cp_def u v using d m by simp
  then show ?thesis by simp
qed

lemma pair_cp_range:
  assumes "is_high u" "is_low v"
  shows "0x10000 \<le> pair_cp u v" "pair_cp u v < 0x110000"
  using assms by (auto simp: pair_cp_def is_high_def is_low_def)

theorem utf8_round_trip: "well_formed s \<Longrightarrow> utf8_decode (utf8_encode s) = s"
proof (induction s rule: utf8_encode.induct)
  case (1 u v us)
  show ?case
  proof (cases "is_high u \<and> is_low v")
    case True
    with 1 have "utf8_decode (utf8_encode us) = us" by simp
    with True show ?thesis
      by (simp add: decode_enc_cp4 pair_cp_range units_of_pair)
  next
    case False
    with 1(3) have nu: "\<not> is_high u" "\<not> is_low u" and wf: "well_formed (v # us)"
      by (auto split: if_splits)
    with 1(2) False have "utf8_decode (utf8_encode (v # us)) = v # us" by simp
    with False nu show ?thesis
      by (simp add: decode_enc_unit del: utf8_encode.simps(1) utf8_decode.simps)
         (simp add: decode_enc_unit)
  qed
next
  case (2 u)
  then show ?case
    using decode_enc_unit [of u "[]"] by simp
next
  case 3
  show ?case by simp
qed

subsection \<open>What decoding produces\<close>

lemma well_formed_Cons:
  "\<not> is_high x \<Longrightarrow> \<not> is_low x \<Longrightarrow> well_formed (x # xs) = well_formed xs"
  by (cases xs) simp_all

lemma well_formed_pair:
  "is_high x \<Longrightarrow> is_low y \<Longrightarrow> well_formed (x # y # xs) = well_formed xs"
  by simp

lemma not_surrogate_of_nat:
  assumes "c < 0xD800 \<or> (0xE000 \<le> c \<and> c < 0x10000)"
  shows "\<not> is_high (of_nat c)" "\<not> is_low (of_nat c)"
proof -
  from assms have "c < 65536" by auto
  then have "unat (of_nat c :: 16 word) = c" by (rule unat_of_nat_unit)
  with assms show "\<not> is_high (of_nat c)" "\<not> is_low (of_nat c)"
    by (auto simp: is_high_def is_low_def)
qed

lemma replacement_not_surrogate: "\<not> is_high 0xFFFD" "\<not> is_low 0xFFFD"
  by (simp_all add: is_high_def is_low_def)

lemma well_formed_units_of_cp:
  assumes "0x10000 \<le> c" "c < 0x110000"
  shows "well_formed (units_of_cp c @ xs) = well_formed xs"
proof -
  define d where "d = c - 0x10000"
  have d: "d < 0x100000" using assms by (simp add: d_def)
  then have q: "d div 0x400 < 0x400" by simp
  have r: "d mod 0x400 < 0x400" by simp
  have h: "unat (of_nat (0xD800 + d div 0x400) :: 16 word) = 0xD800 + d div 0x400"
    using q by (intro unat_of_nat_unit) simp
  have l: "unat (of_nat (0xDC00 + d mod 0x400) :: 16 word) = 0xDC00 + d mod 0x400"
    using r by (intro unat_of_nat_unit) simp
  have "is_high (of_nat (0xD800 + d div 0x400))"
    unfolding is_high_def h using q by simp
  moreover have "is_low (of_nat (0xDC00 + d mod 0x400))"
    unfolding is_low_def l using r by simp
  ultimately show ?thesis
    using assms unfolding units_of_cp_def d_def [symmetric]
    by (simp del: of_nat_add)
qed

lemma dec2_val:
  assumes "0xC2 \<le> n" "n \<le> 0xDF" "cont b1"
  shows "0x80 \<le> (n - 0xC0) * 0x40 + (unat b1 - 0x80)"
    and "(n - 0xC0) * 0x40 + (unat b1 - 0x80) < 0xD800"
  using assms by (auto simp: cont_def)

lemma dec3_val:
  assumes "0xE0 \<le> n" "n \<le> 0xEF" "second_ok n b1" "cont b2"
  shows "0x80 \<le> (n - 0xE0) * 0x1000 + (unat b1 - 0x80) * 0x40 + (unat b2 - 0x80)"
    and "(n - 0xE0) * 0x1000 + (unat b1 - 0x80) * 0x40 + (unat b2 - 0x80) < 0xD800
       \<or> (0xE000 \<le> (n - 0xE0) * 0x1000 + (unat b1 - 0x80) * 0x40 + (unat b2 - 0x80)
          \<and> (n - 0xE0) * 0x1000 + (unat b1 - 0x80) * 0x40 + (unat b2 - 0x80) < 0x10000)"
proof -
  define q where "q = n - 0xE0"
  define m where "m = unat b1 - 0x80"
  define l where "l = unat b2 - 0x80"
  have q: "q \<le> 15" using assms by (simp add: q_def)
  have l: "l < 0x40" using assms by (auto simp: l_def cont_def)
  have m: "m < 0x40" using assms by (auto simp: m_def second_ok_def Let_def split: if_splits)
  have q0: "q = 0 \<Longrightarrow> 0x20 \<le> m"
    using assms by (auto simp: q_def m_def second_ok_def Let_def split: if_splits)
  have q13: "q = 13 \<Longrightarrow> m < 0x20"
    using assms by (auto simp: q_def m_def second_ok_def Let_def split: if_splits)
  show "0x80 \<le> (n - 0xE0) * 0x1000 + (unat b1 - 0x80) * 0x40 + (unat b2 - 0x80)"
    unfolding q_def [symmetric] m_def [symmetric] l_def [symmetric]
    using q0 by (cases "q = 0") simp_all
  consider "q < 13" | "q = 13" | "13 < q" by linarith
  then have "q * 0x1000 + m * 0x40 + l < 0xD800
       \<or> (0xE000 \<le> q * 0x1000 + m * 0x40 + l \<and> q * 0x1000 + m * 0x40 + l < 0x10000)"
  proof cases
    case 1
    with l m show ?thesis by linarith
  next
    case 2
    with l m q13 show ?thesis by simp
  next
    case 3
    with l m q show ?thesis by linarith
  qed
  then show "(n - 0xE0) * 0x1000 + (unat b1 - 0x80) * 0x40 + (unat b2 - 0x80) < 0xD800
       \<or> (0xE000 \<le> (n - 0xE0) * 0x1000 + (unat b1 - 0x80) * 0x40 + (unat b2 - 0x80)
          \<and> (n - 0xE0) * 0x1000 + (unat b1 - 0x80) * 0x40 + (unat b2 - 0x80) < 0x10000)"
    unfolding q_def m_def l_def .
qed

lemma dec4_val:
  assumes "0xF0 \<le> n" "n \<le> 0xF4" "second_ok n b1" "cont b2" "cont b3"
  shows "0x10000 \<le> (n - 0xF0) * 0x40000 + (unat b1 - 0x80) * 0x1000
                     + (unat b2 - 0x80) * 0x40 + (unat b3 - 0x80)"
    and "(n - 0xF0) * 0x40000 + (unat b1 - 0x80) * 0x1000
                     + (unat b2 - 0x80) * 0x40 + (unat b3 - 0x80) < 0x110000"
proof -
  define q where "q = n - 0xF0"
  define k where "k = unat b1 - 0x80"
  define m where "m = unat b2 - 0x80"
  define l where "l = unat b3 - 0x80"
  have q: "q \<le> 4" using assms by (simp add: q_def)
  have l: "l < 0x40" using assms by (auto simp: l_def cont_def)
  have m: "m < 0x40" using assms by (auto simp: m_def cont_def)
  have k: "k < 0x40" using assms by (auto simp: k_def second_ok_def Let_def split: if_splits)
  have q0: "q = 0 \<Longrightarrow> 0x10 \<le> k"
    using assms by (auto simp: q_def k_def second_ok_def Let_def split: if_splits)
  have q4: "q = 4 \<Longrightarrow> k < 0x10"
    using assms by (auto simp: q_def k_def second_ok_def Let_def split: if_splits)
  show "0x10000 \<le> (n - 0xF0) * 0x40000 + (unat b1 - 0x80) * 0x1000
                     + (unat b2 - 0x80) * 0x40 + (unat b3 - 0x80)"
    unfolding q_def [symmetric] m_def [symmetric] l_def [symmetric] k_def [symmetric]
    using q0 by (cases "q = 0") simp_all
  show "(n - 0xF0) * 0x40000 + (unat b1 - 0x80) * 0x1000
                     + (unat b2 - 0x80) * 0x40 + (unat b3 - 0x80) < 0x110000"
    unfolding q_def [symmetric] m_def [symmetric] l_def [symmetric] k_def [symmetric]
    using q l m k q4 by (cases "q = 4") simp_all
qed

lemma of_nat_not_comma:
  assumes "0x80 \<le> c" "c < 0x10000"
  shows "(of_nat c :: 16 word) \<noteq> 44"
proof
  assume "(of_nat c :: 16 word) = 44"
  then have "unat (of_nat c :: 16 word) = 44" by simp
  with assms show False by (simp add: unat_of_nat_unit)
qed

lemma units_of_cp_no_comma:
  assumes "0x10000 \<le> c" "c < 0x110000"
  shows "count_list (units_of_cp c) 44 = 0" "length (units_of_cp c) = 2"
proof -
  define d where "d = c - 0x10000"
  have d: "d < 0x100000" using assms by (simp add: d_def)
  then have q: "d div 0x400 < 0x400" by simp
  have r: "d mod 0x400 < 0x400" by simp
  have "(of_nat (0xD800 + d div 0x400) :: 16 word) \<noteq> 44"
    using q by (intro of_nat_not_comma) simp_all
  moreover have "(of_nat (0xDC00 + d mod 0x400) :: 16 word) \<noteq> 44"
    using r by (intro of_nat_not_comma) simp_all
  ultimately show "count_list (units_of_cp c) 44 = 0"
    using assms unfolding units_of_cp_def d_def [symmetric]
    by (simp del: of_nat_add)
  show "length (units_of_cp c) = 2"
    using assms by (simp add: units_of_cp_def)
qed

lemma ascii_unit:
  assumes "unat (b :: byte) < 0x80"
  shows "\<not> is_high (of_nat (unat b))" "\<not> is_low (of_nat (unat b))"
    "((of_nat (unat b) :: 16 word) = 44) = (b = 44)"
proof -
  define x :: "16 word" where "x = of_nat (unat b)"
  have u: "unat x = unat b"
    unfolding x_def using assms by (intro unat_of_nat_unit) simp
  have "\<not> is_high x" "\<not> is_low x"
    using assms unfolding is_high_def is_low_def u by simp_all
  then show "\<not> is_high (of_nat (unat b))" "\<not> is_low (of_nat (unat b))"
    unfolding x_def .
  have "(x = 44) = (b = 44)"
  proof
    assume "x = 44"
    then have "unat x = 44" by simp
    then have "unat b = unat (44 :: byte)" unfolding u by simp
    then show "b = 44" by (simp only: word_unat_eq_iff)
  next
    assume "b = 44"
    then have "unat x = unat (44 :: 16 word)" unfolding u by simp
    then show "x = 44" by (simp only: word_unat_eq_iff)
  qed
  then show "((of_nat (unat b) :: 16 word) = 44) = (b = 44)"
    unfolding x_def .
qed

text \<open>One step of the decoder: a non-empty prefix of the input is turned into one code unit
  or one surrogate pair.\<close>
lemma utf8_decode_step:
  "\<exists>us cs rest. b # bs = cs @ rest \<and> cs \<noteq> [] \<and> utf8_decode (b # bs) = us @ utf8_decode rest
     \<and> length us \<le> length cs \<and> count_list us 44 \<le> count_list cs 44
     \<and> (\<forall>xs. well_formed (us @ xs) = well_formed xs)"
  (is "\<exists>us cs rest. ?P us cs rest")
proof -
  note utf8_decode.simps [simp del]
  note dec = utf8_decode.simps(2) [of b bs, unfolded Let_def]
  note ss = if_True if_False list.case simp_thms
  let ?n = "unat b"
  have bad: "?P [0xFFFD] cs rest"
    if "b # bs = cs @ rest" "cs \<noteq> []" "utf8_decode (b # bs) = 0xFFFD # utf8_decode rest"
    for cs rest
    using that by (cases cs) (simp_all add: well_formed_Cons [OF replacement_not_surrogate])
  have one: "?P [of_nat c] cs rest"
    if "b # bs = cs @ rest" "length cs \<ge> 2" "utf8_decode (b # bs) = of_nat c # utf8_decode rest"
       "0x80 \<le> c" "c < 0xD800 \<or> (0xE000 \<le> c \<and> c < 0x10000)"
    for c cs rest
  proof -
    have "c < 0x10000" using that(5) by auto
    with that(4) have "(of_nat c :: 16 word) \<noteq> 44" by (rule of_nat_not_comma)
    moreover have "cs \<noteq> []" using that(2) by auto
    ultimately show ?thesis
      using that by (simp add: well_formed_Cons [OF not_surrogate_of_nat])
  qed
  consider (ascii) "?n < 0x80"
    | (two) "\<not> ?n < 0x80" "0xC2 \<le> ?n \<and> ?n \<le> 0xDF"
    | (three) "\<not> ?n < 0x80" "\<not> (0xC2 \<le> ?n \<and> ?n \<le> 0xDF)" "0xE0 \<le> ?n \<and> ?n \<le> 0xEF"
    | (four) "\<not> ?n < 0x80" "\<not> (0xC2 \<le> ?n \<and> ?n \<le> 0xDF)" "\<not> (0xE0 \<le> ?n \<and> ?n \<le> 0xEF)"
        "0xF0 \<le> ?n \<and> ?n \<le> 0xF4"
    | (other) "\<not> ?n < 0x80" "\<not> (0xC2 \<le> ?n \<and> ?n \<le> 0xDF)" "\<not> (0xE0 \<le> ?n \<and> ?n \<le> 0xEF)"
        "\<not> (0xF0 \<le> ?n \<and> ?n \<le> 0xF4)"
    by blast
  then show ?thesis
  proof cases
    case ascii
    then have "utf8_decode (b # bs) = of_nat ?n # utf8_decode bs"
      by (simp only: dec ss)
    then have "?P [of_nat ?n] [b] bs"
      using ascii ascii_unit [of b]
      by (simp add: well_formed_Cons del: of_nat_unat)
    then show ?thesis by blast
  next
    case other
    then have "utf8_decode (b # bs) = 0xFFFD # utf8_decode bs"
      by (simp only: dec ss)
    then have "?P [0xFFFD] [b] bs" by (intro bad) simp_all
    then show ?thesis by blast
  next
    case two
    show ?thesis
    proof (cases bs)
      case Nil
      with two have "utf8_decode (b # bs) = 0xFFFD # utf8_decode []"
        by (simp only: dec [unfolded Nil] ss utf8_decode.simps(1))
      then have "?P [0xFFFD] [b] []" using Nil by (intro bad) simp_all
      then show ?thesis by blast
    next
      case (Cons b1 r1)
      show ?thesis
      proof (cases "cont b1")
        case True
        with two Cons have "utf8_decode (b # bs)
            = of_nat ((?n - 0xC0) * 0x40 + (unat b1 - 0x80)) # utf8_decode r1"
          by (simp only: dec [unfolded Cons] ss)
        then have "?P [of_nat ((?n - 0xC0) * 0x40 + (unat b1 - 0x80))] [b, b1] r1"
          using dec2_val [OF conjunct1 [OF two(2)] conjunct2 [OF two(2)] True] Cons
          by (intro one) simp_all
        then show ?thesis by blast
      next
        case False
        with two Cons have "utf8_decode (b # bs) = 0xFFFD # utf8_decode bs"
          by (simp only: dec [unfolded Cons] ss)
        then have "?P [0xFFFD] [b] bs" by (intro bad) simp_all
        then show ?thesis by blast
      qed
    qed
  next
    case three
    show ?thesis
    proof (cases bs)
      case Nil
      with three have "utf8_decode (b # bs) = 0xFFFD # utf8_decode []"
        by (simp only: dec [unfolded Nil] ss utf8_decode.simps(1))
      then have "?P [0xFFFD] [b] []" using Nil by (intro bad) simp_all
      then show ?thesis by blast
    next
      case (Cons b1 r1)
      note bs = this
      show ?thesis
      proof (cases "second_ok ?n b1")
        case False
        with three bs have "utf8_decode (b # bs) = 0xFFFD # utf8_decode bs"
          by (simp only: dec [unfolded bs] ss)
        then have "?P [0xFFFD] [b] bs" by (intro bad) simp_all
        then show ?thesis by blast
      next
        case True
        note s = this
        show ?thesis
        proof (cases r1)
          case Nil
          with three bs s have "utf8_decode (b # bs) = 0xFFFD # utf8_decode []"
            by (simp only: dec [unfolded bs Nil] ss utf8_decode.simps(1))
          then have "?P [0xFFFD] [b, b1] []" using Nil bs by (intro bad) simp_all
          then show ?thesis by blast
        next
          case (Cons b2 r2)
          show ?thesis
          proof (cases "cont b2")
            case False
            with three bs s Cons have "utf8_decode (b # bs) = 0xFFFD # utf8_decode r1"
              by (simp only: dec [unfolded bs Cons] ss)
            then have "?P [0xFFFD] [b, b1] r1" using bs by (intro bad) simp_all
            then show ?thesis by blast
          next
            case True
            with three bs s Cons have "utf8_decode (b # bs)
               = of_nat ((?n - 0xE0) * 0x1000 + (unat b1 - 0x80) * 0x40 + (unat b2 - 0x80))
                 # utf8_decode r2"
              by (simp only: dec [unfolded bs Cons] ss)
            then have "?P [of_nat ((?n - 0xE0) * 0x1000 + (unat b1 - 0x80) * 0x40
                                   + (unat b2 - 0x80))] [b, b1, b2] r2"
              using dec3_val [OF conjunct1 [OF three(3)] conjunct2 [OF three(3)] s True] bs Cons
              by (intro one) simp_all
            then show ?thesis by blast
          qed
        qed
      qed
    qed
  next
    case four
    show ?thesis
    proof (cases bs)
      case Nil
      with four have "utf8_decode (b # bs) = 0xFFFD # utf8_decode []"
        by (simp only: dec [unfolded Nil] ss utf8_decode.simps(1))
      then have "?P [0xFFFD] [b] []" using Nil by (intro bad) simp_all
      then show ?thesis by blast
    next
      case (Cons b1 r1)
      note bs = this
      show ?thesis
      proof (cases "second_ok ?n b1")
        case False
        with four bs have "utf8_decode (b # bs) = 0xFFFD # utf8_decode bs"
          by (simp only: dec [unfolded bs] ss)
        then have "?P [0xFFFD] [b] bs" by (intro bad) simp_all
        then show ?thesis by blast
      next
        case True
        note s = this
        show ?thesis
        proof (cases r1)
          case Nil
          with four bs s have "utf8_decode (b # bs) = 0xFFFD # utf8_decode []"
            by (simp only: dec [unfolded bs Nil] ss utf8_decode.simps(1))
          then have "?P [0xFFFD] [b, b1] []" using Nil bs by (intro bad) simp_all
          then show ?thesis by blast
        next
          case (Cons b2 r2)
          note r1 = this
          show ?thesis
          proof (cases "cont b2")
            case False
            with four bs s r1 have "utf8_decode (b # bs) = 0xFFFD # utf8_decode r1"
              by (simp only: dec [unfolded bs r1] ss)
            then have "?P [0xFFFD] [b, b1] r1" using bs by (intro bad) simp_all
            then show ?thesis by blast
          next
            case True
            note c2 = this
            show ?thesis
            proof (cases r2)
              case Nil
              with four bs s r1 c2 have "utf8_decode (b # bs) = 0xFFFD # utf8_decode []"
                by (simp only: dec [unfolded bs r1 Nil] ss utf8_decode.simps(1))
              then have "?P [0xFFFD] [b, b1, b2] []" using Nil bs r1 by (intro bad) simp_all
              then show ?thesis by blast
            next
              case (Cons b3 r3)
              show ?thesis
              proof (cases "cont b3")
                case False
                with four bs s r1 c2 Cons
                have "utf8_decode (b # bs) = 0xFFFD # utf8_decode r2"
                  by (simp only: dec [unfolded bs r1 Cons] ss)
                then have "?P [0xFFFD] [b, b1, b2] r2" using bs r1 by (intro bad) simp_all
                then show ?thesis by blast
              next
                case True
                let ?c = "(?n - 0xF0) * 0x40000 + (unat b1 - 0x80) * 0x1000
                          + (unat b2 - 0x80) * 0x40 + (unat b3 - 0x80)"
                from four bs s r1 c2 Cons True
                have "utf8_decode (b # bs) = units_of_cp ?c @ utf8_decode r3"
                  by (simp only: dec [unfolded bs r1 Cons] ss)
                then have "?P (units_of_cp ?c) [b, b1, b2, b3] r3"
                  using dec4_val [OF conjunct1 [OF four(4)] conjunct2 [OF four(4)] s c2 True]
                    bs r1 Cons
                  by (simp add: units_of_cp_no_comma well_formed_units_of_cp)
                then show ?thesis by blast
              qed
            qed
          qed
        qed
      qed
    qed
  qed
qed

theorem well_formed_utf8_decode: "well_formed (utf8_decode bs)"
proof (induction bs rule: length_induct)
  case (1 bs)
  show ?case
  proof (cases bs)
    case Nil
    then show ?thesis by simp
  next
    case (Cons b r)
    from utf8_decode_step [of b r] obtain us cs rest where
      s: "b # r = cs @ rest" "cs \<noteq> []" "utf8_decode (b # r) = us @ utf8_decode rest"
         "\<forall>xs. well_formed (us @ xs) = well_formed xs"
      by blast
    from s(1,2) Cons have "length rest < length bs" by (cases cs) auto
    with 1 have "well_formed (utf8_decode rest)" by blast
    with s(3,4) Cons show ?thesis by simp
  qed
qed



theorem utf8_decode_stable: "utf8_decode (utf8_encode (utf8_decode bs)) = utf8_decode bs"
  by (rule utf8_round_trip [OF well_formed_utf8_decode])

subsection \<open>The inverse cipher undoes the cipher\<close>

lemma sbox_inverse_all:
  "list_all (\<lambda>b. inv_sbox (sbox b) = b) (map of_nat [0..<256])"
  by (simp add: sbox_def inv_sbox_def sbox_table_def inv_sbox_table_def upt_rec)

lemma inv_sbox_sbox: "inv_sbox (sbox b) = b"
proof -
  have "unat b < 256" by (rule unat_byte_less)
  then have "unat b \<in> set [0..<256]" by simp
  then have "(of_nat (unat b) :: byte) \<in> of_nat ` set [0..<256]" by (rule imageI)
  then have "b \<in> set (map of_nat [0..<256] :: byte list)" by (simp only: set_map of_nat_unat ucast_id)
  with sbox_inverse_all show ?thesis
    unfolding list_all_iff by blast
qed

lemma InvSubBytes_SubBytes: "InvSubBytes (SubBytes st) = st"
  by (simp add: InvSubBytes_def SubBytes_def inv_sbox_sbox comp_def)

lemma xtime_xor: "xtime (a XOR b) = xtime a XOR xtime b"
  by (cases "bit a 7"; cases "bit b 7")
     (simp_all add: xtime_def bit_xor_iff push_bit_eq_mult algebra_simps ac_simps
        bit.xor_left_self flip: push_bit_eq_mult)

lemma mix_column_inverse:
  "mul14 (mul2 a0 XOR mul3 a1 XOR a2 XOR a3) XOR mul11 (a0 XOR mul2 a1 XOR mul3 a2 XOR a3)
     XOR mul13 (a0 XOR a1 XOR mul2 a2 XOR mul3 a3) XOR mul9 (mul3 a0 XOR a1 XOR a2 XOR mul2 a3) = a0"
  "mul9 (mul2 a0 XOR mul3 a1 XOR a2 XOR a3) XOR mul14 (a0 XOR mul2 a1 XOR mul3 a2 XOR a3)
     XOR mul11 (a0 XOR a1 XOR mul2 a2 XOR mul3 a3) XOR mul13 (mul3 a0 XOR a1 XOR a2 XOR mul2 a3) = a1"
  "mul13 (mul2 a0 XOR mul3 a1 XOR a2 XOR a3) XOR mul9 (a0 XOR mul2 a1 XOR mul3 a2 XOR a3)
     XOR mul14 (a0 XOR a1 XOR mul2 a2 XOR mul3 a3) XOR mul11 (mul3 a0 XOR a1 XOR a2 XOR mul2 a3) = a2"
  "mul11 (mul2 a0 XOR mul3 a1 XOR a2 XOR a3) XOR mul13 (a0 XOR mul2 a1 XOR mul3 a2 XOR a3)
     XOR mul9 (a0 XOR a1 XOR mul2 a2 XOR mul3 a3) XOR mul14 (mul3 a0 XOR a1 XOR a2 XOR mul2 a3) = a3"
  by (simp_all add: mul2_def mul3_def mul9_def mul11_def mul13_def mul14_def xtime_xor
        ac_simps bit.xor_left_self)

lemma InvMixColumns_MixColumns: "InvMixColumns (MixColumns st) = st"
  by (induction st rule: MixColumns.induct) (simp_all only: MixColumns.simps InvMixColumns.simps mix_column_inverse)

lemma InvShiftRows_ShiftRows: "InvShiftRows (ShiftRows st) = st"
  by (induction st rule: ShiftRows.induct) simp_all

lemma length_MixColumns: "length (MixColumns st) = length st"
  by (induction st rule: MixColumns.induct) simp_all

lemma length_ShiftRows: "length (ShiftRows st) = length st"
  by (induction st rule: ShiftRows.induct) simp_all

lemma length_InvMixColumns: "length (InvMixColumns st) = length st"
  by (induction st rule: InvMixColumns.induct) simp_all

lemma length_InvShiftRows: "length (InvShiftRows st) = length st"
  by (induction st rule: InvShiftRows.induct) simp_all

lemma xor_bytes_cancel: "length ys = length xs \<Longrightarrow> xor_bytes (xor_bytes xs ys) ys = xs"
proof (induction xs arbitrary: ys)
  case Nil
  then show ?case by (simp add: xor_bytes_def)
next
  case (Cons x xs)
  then obtain y ys' where ys: "ys = y # ys'" by (cases ys) auto
  with Cons have "xor_bytes (xor_bytes xs ys') ys' = xs" by simp
  then show ?case
    unfolding ys xor_bytes_def by (simp add: bit.xor_left_self ac_simps)
qed

lemma length_xor_bytes: "length (xor_bytes xs ys) = min (length xs) (length ys)"
  by (simp add: xor_bytes_def)

lemma length_SubBytes: "length (SubBytes st) = length st"
  by (simp add: SubBytes_def)

lemma length_InvSubBytes: "length (InvSubBytes st) = length st"
  by (simp add: InvSubBytes_def)

lemma AddRoundKey_cancel: "length rk = length st \<Longrightarrow> AddRoundKey (AddRoundKey st rk) rk = st"
  by (simp add: AddRoundKey_def xor_bytes_cancel)

lemma length_AddRoundKey: "length rk = length st \<Longrightarrow> length (AddRoundKey st rk) = length st"
  by (simp add: AddRoundKey_def length_xor_bytes)

lemmas aes_lengths = length_SubBytes length_InvSubBytes length_ShiftRows length_InvShiftRows
  length_MixColumns length_InvMixColumns length_AddRoundKey

text \<open>Any sequence of rounds is undone by the inverse rounds in reverse order.\<close>
lemma rounds_inverse:
  assumes "\<forall>r \<in> set rs. length (rk r) = length st"
  shows "fold (\<lambda>r s. InvMixColumns (AddRoundKey (InvSubBytes (InvShiftRows s)) (rk r))) (rev rs)
           (ShiftRows (SubBytes
              (fold (\<lambda>r s. AddRoundKey (MixColumns (ShiftRows (SubBytes s))) (rk r)) rs st)))
         = ShiftRows (SubBytes st)
       \<and> length (fold (\<lambda>r s. AddRoundKey (MixColumns (ShiftRows (SubBytes s))) (rk r)) rs st)
           = length st"
  using assms
proof (induction rs arbitrary: st)
  case Nil
  show ?case by simp
next
  case (Cons r rs)
  let ?f = "\<lambda>r s. AddRoundKey (MixColumns (ShiftRows (SubBytes s))) (rk r)"
  let ?g = "\<lambda>r s. InvMixColumns (AddRoundKey (InvSubBytes (InvShiftRows s)) (rk r))"
  have l: "length (?f r st) = length st"
    using Cons.prems by (simp add: aes_lengths)
  have "\<forall>k \<in> set rs. length (rk k) = length (?f r st)"
    unfolding l using Cons.prems by simp
  from Cons.IH [OF this] have
    ih: "fold ?g (rev rs) (ShiftRows (SubBytes (fold ?f rs (?f r st)))) = ShiftRows (SubBytes (?f r st))"
        "length (fold ?f rs (?f r st)) = length st"
    unfolding l by simp_all
  have "?g r (ShiftRows (SubBytes (?f r st))) = ShiftRows (SubBytes st)"
    using Cons.prems
    by (simp add: aes_lengths AddRoundKey_cancel InvMixColumns_MixColumns
          InvShiftRows_ShiftRows InvSubBytes_SubBytes)
  with ih show ?case by simp
qed

lemma InvCipher_Cipher:
  assumes "\<forall>r \<le> 14. length (round_key w r) = length blk"
  shows "InvCipher w (Cipher w blk) = blk" "length (Cipher w blk) = length blk"
proof -
  let ?f = "\<lambda>r s. AddRoundKey (MixColumns (ShiftRows (SubBytes s))) (round_key w r)"
  let ?s0 = "AddRoundKey blk (round_key w 0)"
  let ?s1 = "fold ?f [1..<14] ?s0"
  have l0: "length ?s0 = length blk"
    using assms by (simp add: aes_lengths)
  have "\<forall>r \<in> set [1..<14]. length (round_key w r) = length ?s0"
    unfolding l0 using assms by simp
  from rounds_inverse [of "[1..<14]" "round_key w", OF this]
  have inv: "fold (\<lambda>r s. InvMixColumns (AddRoundKey (InvSubBytes (InvShiftRows s)) (round_key w r)))
               (rev [1..<14]) (ShiftRows (SubBytes ?s1)) = ShiftRows (SubBytes ?s0)"
    and l1: "length ?s1 = length blk"
    unfolding l0 by simp_all
  have k14: "length (round_key w 14) = length blk" and k0: "length (round_key w 0) = length blk"
    using assms by simp_all
  have last: "AddRoundKey (AddRoundKey (ShiftRows (SubBytes ?s1)) (round_key w 14)) (round_key w 14)
              = ShiftRows (SubBytes ?s1)"
    using k14 l1 by (intro AddRoundKey_cancel) (simp add: aes_lengths)
  show "InvCipher w (Cipher w blk) = blk"
    unfolding InvCipher_def Cipher_def Let_def last
    by (simp only: InvShiftRows_ShiftRows InvSubBytes_SubBytes inv AddRoundKey_cancel [OF k0])
  show "length (Cipher w blk) = length blk"
    unfolding Cipher_def Let_def using k14 l1 by (simp add: aes_lengths)
qed

subsection \<open>Blocks and the key schedule\<close>

lemma chunks_Nil [simp]: "chunks n [] = []"
  by (simp add: chunks.simps)

lemma chunks_step: "0 < n \<Longrightarrow> xs \<noteq> [] \<Longrightarrow> chunks n xs = take n xs # chunks n (drop n xs)"
  by (subst chunks.simps) simp

lemma chunks_exact:
  "0 < n \<Longrightarrow> length xs = k * n \<Longrightarrow>
     length (chunks n xs) = k \<and> (\<forall>c \<in> set (chunks n xs). length c = n)"
proof (induction k arbitrary: xs)
  case 0
  then show ?case by simp
next
  case (Suc k)
  then have ne: "xs \<noteq> []" by auto
  from Suc.prems have "length (drop n xs) = k * n" by simp
  from Suc.IH [OF Suc.prems(1) this] Suc.prems show ?case
    by (simp add: chunks_step [OF Suc.prems(1) ne])
qed

lemma concat_chunks: "0 < n \<Longrightarrow> concat (chunks n xs) = xs"
proof (induction xs rule: length_induct)
  case (1 xs)
  show ?case
  proof (cases "xs = []")
    case True
    then show ?thesis by simp
  next
    case False
    with 1(2) have "length (drop n xs) < length xs" by simp
    with 1 have "concat (chunks n (drop n xs)) = drop n xs" by blast
    with False 1(2) show ?thesis by (simp add: chunks_step)
  qed
qed

lemma length_concat_uniform:
  "\<forall>x \<in> set xs. length x = n \<Longrightarrow> length (concat xs) = n * length xs"
  by (induction xs) simp_all

lemma length_next_word:
  assumes "\<forall>x \<in> set w. length x = 4" "length w = i" "8 \<le> i"
  shows "length (next_word i w) = 4"
proof -
  have "w ! (i - 1) \<in> set w" "w ! (i - 8) \<in> set w"
    using assms by (simp_all add: nth_mem)
  with assms(1) have "length (w ! (i - 1)) = 4" "length (w ! (i - 8)) = 4" by blast+
  then show ?thesis
    by (simp add: next_word_def Let_def length_xor_bytes)
qed

lemma schedule_words:
  assumes "\<forall>x \<in> set w. length x = 4" "length w = a" "8 \<le> a" "a \<le> b"
  shows "length (fold (\<lambda>i w. w @ [next_word i w]) [a..<b] w) = b
       \<and> (\<forall>x \<in> set (fold (\<lambda>i w. w @ [next_word i w]) [a..<b] w). length x = 4)"
  using assms(4)
proof (induction b)
  case 0
  with assms show ?case by simp
next
  case (Suc b)
  show ?case
  proof (cases "a = Suc b")
    case True
    with assms show ?thesis by simp
  next
    case False
    with Suc.prems have ab: "a \<le> b" by simp
    let ?w = "fold (\<lambda>i w. w @ [next_word i w]) [a..<b] w"
    from Suc.IH [OF ab] have l: "length ?w = b" and p: "\<forall>x \<in> set ?w. length x = 4"
      by simp_all
    from ab assms(3) have "8 \<le> b" by simp
    from length_next_word [OF p l this] l p ab show ?thesis by simp
  qed
qed

lemma length_round_key:
  assumes "length key = 32" "r \<le> 14"
  shows "length (round_key (KeyExpansion key) r) = 16"
proof -
  have c: "length (chunks 4 key) = 8 \<and> (\<forall>c \<in> set (chunks 4 key). length c = 4)"
    using assms(1) by (intro chunks_exact) simp_all
  then have "length (KeyExpansion key) = 60 \<and> (\<forall>x \<in> set (KeyExpansion key). length x = 4)"
    unfolding KeyExpansion_def by (intro schedule_words) simp_all
  then have l: "length (KeyExpansion key) = 60"
    and p: "\<forall>x \<in> set (take 4 (drop (4 * r) (KeyExpansion key))). length x = 4"
    by (auto dest!: in_set_takeD in_set_dropD)
  from length_concat_uniform [OF p] l assms(2) show ?thesis
    by (simp add: round_key_def)
qed

lemma aes_block_round_trip:
  assumes "length key = 32" "length blk = 16"
  shows "InvCipher (KeyExpansion key) (Cipher (KeyExpansion key) blk) = blk"
    and "length (Cipher (KeyExpansion key) blk) = 16"
  using InvCipher_Cipher [of "KeyExpansion key" blk] length_round_key [OF assms(1)] assms(2)
  by simp_all

subsection \<open>Padding and chaining\<close>

lemma pad_length_pos: "0 < 16 - length m mod 16" "16 - length m mod 16 \<le> 16"
  by simp_all

lemma pkcs7_pad_length: "length (pkcs7_pad m) mod 16 = 0" "pkcs7_pad m \<noteq> []"
proof -
  define n where "n = 16 - length m mod 16"
  have n: "0 < n" "n \<le> 16" by (simp_all add: n_def)
  have "(length m + n) mod 16 = (length m mod 16 + n) mod 16"
    by (simp add: mod_add_left_eq)
  also have "length m mod 16 + n = 16" by (simp add: n_def)
  finally show "length (pkcs7_pad m) mod 16 = 0"
    by (simp add: pkcs7_pad_def Let_def n_def)
  show "pkcs7_pad m \<noteq> []"
    using n by (simp add: pkcs7_pad_def Let_def n_def [symmetric])
qed

lemma pkcs7_unpad_pad: "pkcs7_unpad (pkcs7_pad m) = Some m"
proof -
  define n where "n = 16 - length m mod 16"
  have n: "0 < n" "n \<le> 16" by (simp_all add: n_def)
  have p: "pkcs7_pad m = m @ replicate n (of_nat n)"
    by (simp add: pkcs7_pad_def Let_def n_def)
  have l: "last (m @ replicate n (of_nat n :: byte)) = of_nat n"
    using n by (cases n) simp_all
  have u: "unat (of_nat n :: byte) = n"
    using n by (intro unat_of_nat_byte) simp
  show ?thesis
    unfolding p pkcs7_unpad_def l u Let_def using n by simp
qed

lemma chunks_append_block:
  "0 < n \<Longrightarrow> length c = n \<Longrightarrow> chunks n (c @ rest) = c # chunks n rest"
  by (subst chunks.simps) auto

lemma cbc_round_trip:
  assumes "length key = 32" "\<forall>b \<in> set bs. length b = 16" "length prev = 16"
  shows "cbc_decrypt (KeyExpansion key) prev (chunks 16 (cbc_encrypt (KeyExpansion key) prev bs))
         = concat bs"
  using assms(2,3)
proof (induction bs arbitrary: prev)
  case Nil
  show ?case by simp
next
  case (Cons b bs)
  let ?w = "KeyExpansion key"
  let ?c = "Cipher ?w (xor_bytes b prev)"
  have lb: "length (xor_bytes b prev) = 16"
    using Cons.prems by (simp add: length_xor_bytes)
  from aes_block_round_trip [OF assms(1) lb]
  have inv: "InvCipher ?w ?c = xor_bytes b prev" and lc: "length ?c = 16" by simp_all
  have "xor_bytes (xor_bytes b prev) prev = b"
    using Cons.prems by (intro xor_bytes_cancel) simp
  moreover have "cbc_decrypt ?w ?c (chunks 16 (cbc_encrypt ?w ?c bs)) = concat bs"
    using Cons.prems lc by (intro Cons.IH) simp_all
  ultimately show ?case
    by (simp add: Let_def chunks_append_block [OF _ lc] inv)
qed

lemma length_cbc_encrypt:
  assumes "length key = 32" "\<forall>b \<in> set bs. length b = 16" "length prev = 16"
  shows "length (cbc_encrypt (KeyExpansion key) prev bs) = 16 * length bs"
  using assms(2,3)
proof (induction bs arbitrary: prev)
  case Nil
  show ?case by simp
next
  case (Cons b bs)
  let ?w = "KeyExpansion key"
  let ?c = "Cipher ?w (xor_bytes b prev)"
  have lb: "length (xor_bytes b prev) = 16"
    using Cons.prems by (simp add: length_xor_bytes)
  from aes_block_round_trip [OF assms(1) lb] have lc: "length ?c = 16" by simp
  have "length (cbc_encrypt ?w ?c bs) = 16 * length bs"
    using Cons.prems lc by (intro Cons.IH) simp_all
  with lc show ?case by (simp add: Let_def)
qed

lemma chunks_blocks:
  assumes "length xs mod 16 = 0"
  shows "\<forall>b \<in> set (chunks 16 xs). length b = 16" "xs \<noteq> [] \<Longrightarrow> chunks 16 xs \<noteq> []"
proof -
  from assms have "length xs = length xs div 16 * 16"
    using div_mult_mod_eq [of "length xs" 16] by linarith
  then obtain k where "length xs = k * 16" ..
  from chunks_exact [OF _ this] show "\<forall>b \<in> set (chunks 16 xs). length b = 16" by simp
  show "xs \<noteq> [] \<Longrightarrow> chunks 16 xs \<noteq> []" by (simp add: chunks_step)
qed

subsection \<open>encryptPrivateKey and decryptPrivateKey\<close>

lemma encryptPrivateKey_ok:
  assumes "length v = 16" "length (Buffer_from_hex k) = 32"
  shows "encryptPrivateKey v p k = Inr (toString_hex v @ js '':'' @ toString_hex (ciphertext v p k))"
  using assms by (simp add: encryptPrivateKey_def ciphertext_def Let_def)

lemma decrypt_blob:
  assumes "length v = 16" "length (Buffer_from_hex k1) = 32" "length (Buffer_from_hex k2) = 32"
  shows "decryptPrivateKey (toString_hex v @ js '':'' @ toString_hex (ciphertext v p k1)) k2
         = (case pkcs7_unpad (cbc_decrypt (KeyExpansion (Buffer_from_hex k2)) v
                               (chunks 16 (ciphertext v p k1))) of
              None \<Rightarrow> Inl ERR_OSSL_BAD_DECRYPT
            | Some m \<Rightarrow> Inr (utf8_decode m))"
proof -
  let ?ct = "ciphertext v p k1"
  let ?pad = "pkcs7_pad (utf8_encode p)"
  have bl: "\<forall>b \<in> set (chunks 16 ?pad). length b = 16" and ne: "chunks 16 ?pad \<noteq> []"
    using chunks_blocks [OF pkcs7_pad_length(1)] pkcs7_pad_length(2) by blast+
  have len: "length ?ct = 16 * length (chunks 16 ?pad)"
    unfolding ciphertext_def using assms(2) bl assms(1) by (rule length_cbc_encrypt)
  with ne have ct: "?ct \<noteq> []" "length ?ct mod 16 = 0" by auto
  have sp: "split 58 (toString_hex v @ js '':'' @ toString_hex ?ct)
            = [toString_hex v, toString_hex ?ct]"
    by (simp add: js_def split_at_first split_no_sep colon_notin_hex)
  show ?thesis
    unfolding decryptPrivateKey_def sp using assms ct
    by (simp add: Let_def Buffer_from_hex_toString length_toString_hex)
qed

theorem decrypt_encrypt:
  assumes "length v = 16" "length (Buffer_from_hex k) = 32"
  shows "decryptPrivateKey (toString_hex v @ js '':'' @ toString_hex (ciphertext v p k)) k
         = Inr (utf8_decode (utf8_encode p))"
proof -
  let ?pad = "pkcs7_pad (utf8_encode p)"
  have bl: "\<forall>b \<in> set (chunks 16 ?pad). length b = 16"
    using chunks_blocks [OF pkcs7_pad_length(1)] by blast
  have "cbc_decrypt (KeyExpansion (Buffer_from_hex k)) v (chunks 16 (ciphertext v p k))
        = concat (chunks 16 ?pad)"
    unfolding ciphertext_def using assms(2) bl assms(1) by (rule cbc_round_trip)
  then have "cbc_decrypt (KeyExpansion (Buffer_from_hex k)) v (chunks 16 (ciphertext v p k)) = ?pad"
    by (simp add: concat_chunks)
  then show ?thesis
    by (simp add: decrypt_blob [OF assms(1,2,2)] pkcs7_unpad_pad)
qed

section \<open>Keys and sealed secrets\<close>

lemma key_length:
  assumes "length (pbkdf2_sha512 lib p s 100000 32) = 32"
    and "generateEncryptionKey lib p (Some s) = Inr k"
  shows "length (Buffer_from_hex k) = 32"
  using assms by (auto simp: generateEncryptionKey_def Buffer_from_hex_toString)

lemma encrypt_sealed:
  assumes "length v = 16" "length (Buffer_from_hex k) = 32"
  shows "encryptPrivateKey v p k = Inr (sealed v p k)"
  using encryptPrivateKey_ok [OF assms] by (simp add: sealed_def)

lemma decrypt_sealed:
  assumes "length v = 16" "length (Buffer_from_hex k) = 32"
  shows "decryptPrivateKey (sealed v p k) k = Inr (utf8_decode (utf8_encode p))"
  using decrypt_encrypt [OF assms] by (simp add: sealed_def)

lemma decrypt_sealed_well_formed:
  assumes "length v = 16" "length (Buffer_from_hex k) = 32" "well_formed p"
  shows "decryptPrivateKey (sealed v p k) k = Inr p"
  using decrypt_sealed [OF assms(1,2)] utf8_round_trip [OF assms(3)] by simp



lemma sample_lib_fields:
  "pbkdf2_sha512 sample_libs = sample_pbkdf2"
  "bcrypt_hash sample_libs = (\<lambda>pw s. js ''bcrypt:'' @ pw)"
  "bcrypt_compare sample_libs = (\<lambda>pw h. h = js ''bcrypt:'' @ pw)"
  "base58 sample_libs = toString_hex"
  "Number_uint8 sample_libs = sample_number"
  "isAddress sample_libs = sample_isAddress"
  "isPublicKey sample_libs = (\<lambda>s. length s = 44)"
  "ed25519_public sample_libs = (\<lambda>seed. seed)"
  "fromPhrase sample_libs = (\<lambda>m. (js ''0x4c0883a69102937d6231471b5dbb6204fe5129617082792ae468d01a3f362318'',
                                    js ''0x2c7536e3605d9c16a7a3d7b1898e529396a65c23''))"
  "error_message sample_libs = (\<lambda>err. js ''error'')"
  by (simp_all add: sample_libs_def)

lemma sample_env_fields:
  "new_id (sample_env i s) = i"
  "salt_bytes (sample_env i s) = s"
  "bcrypt_salt (sample_env i s) = []"
  "mnemonic (sample_env i s) = js ''test test test test test test test test test test test junk''"
  "eth_privateKey (sample_env i s)
     = js ''0x59c6995e998f97a5a0044966f0945389dc9e86dae88c7a8412f4603b6b78690d''"
  "eth_address (sample_env i s) = js ''0x70997970c51812dc3a010c7d01b50e0d17dc79c8''"
  "sol_secretKey (sample_env i s) = sample_secret"
  "now (sample_env i s) = 1700000000"
  by (simp_all add: sample_env_def)

lemma sample_user_fields:
  "uid sample_user = 1"
  "username sample_user = js ''alice''"
  "password sample_user = js ''bcrypt:correct horse''"
  "email sample_user = Some (js ''alice@example.com'')"
  "wallets sample_user = \<lparr>ethereum = [], solana = []\<rparr>"
  by (simp_all add: sample_user_def)

lemma findOne_sample_db:
  "findOne sample_db (js ''alice'') = Some sample_user"
  "findOne sample_db (js ''bob'') = None"
  by (simp_all add: sample_db_def sample_user_fields findOne_def js_def)

lemma findById_sample_db: "findById sample_db 1 = Some sample_user"
  by (simp add: sample_db_def findById_def sample_user_fields)

text \<open>The sample user satisfies the schema.\<close>
lemma validate_sample_user: "validate sample_user"
  by (simp add: validate_def validate_entry_def sample_user_def truthy_def js_def)

section \<open>Login\<close>

lemma msg_differs: "msg 404 ''User not found'' \<noteq> msg 400 ''Invalid credentials''"
  by (simp add: msg_def)

text \<open>C8 (as the code has it): an unknown user name is answered with status 404 and the message
  "User not found", a known user name with a wrong password with status 400 and the message
  "Invalid credentials"; the two answers differ in status and in body.\<close>
theorem loginUser_failures:
  assumes "findOne db n1 = None"
    and "findOne db n2 = Some u"
    and "\<not> bcrypt_compare lib p2 (password u)"
  shows "loginUser lib db n1 p1 = msg 404 ''User not found''
       \<and> loginUser lib db n2 p2 = msg 400 ''Invalid credentials''
       \<and> status (loginUser lib db n1 p1) \<noteq> status (loginUser lib db n2 p2)
       \<and> body (loginUser lib db n1 p1) \<noteq> body (loginUser lib db n2 p2)"
  using assms by (simp add: loginUser_def msg_def js_def)


theorem loginUser_failures_witness:
  "findOne sample_db (js ''bob'') = None
   \<and> findOne sample_db (js ''alice'') = Some sample_user
   \<and> \<not> bcrypt_compare sample_libs (js ''guess'') (password sample_user)
   \<and> loginUser sample_libs sample_db (js ''bob'') (js ''guess'') = msg 404 ''User not found''
   \<and> loginUser sample_libs sample_db (js ''alice'') (js ''guess'') = msg 400 ''Invalid credentials''"
proof -
  have c: "\<not> bcrypt_compare sample_libs (js ''guess'') (password sample_user)"
    by (simp add: sample_user_fields sample_lib_fields js_def)
  from loginUser_failures [OF findOne_sample_db(2) findOne_sample_db(1) c, of "js ''guess''"]
  show ?thesis using c findOne_sample_db by simp
qed

text \<open>C8 as the specification states it fails: on the store that holds only \<^verbatim>\<open>alice\<close>, a login as
  \<^verbatim>\<open>bob\<close> and a login as \<^verbatim>\<open>alice\<close> with a wrong password are answered differently.\<close>
theorem loginUser_failure_shapes_counterexample:
  "loginUser sample_libs sample_db (js ''bob'') (js ''guess'')
     \<noteq> loginUser sample_libs sample_db (js ''alice'') (js ''guess'')
   \<and> status (loginUser sample_libs sample_db (js ''bob'') (js ''guess'')) = 404
   \<and> status (loginUser sample_libs sample_db (js ''alice'') (js ''guess'')) = 400"
  unfolding loginUser_def findOne_sample_db
  by (simp add: sample_user_fields sample_lib_fields msg_def js_def)

section \<open>The cipher on sample keys\<close>

lemmas string_eval = js_def enc_unit_def enc_cp_def is_high_def is_low_def pair_cp_def
  hex_value_def hex_digit_def toString_hex_def cont_def second_ok_def units_of_cp_def Let_def

lemmas aes_eval = sbox_def sbox_table_def inv_sbox_def inv_sbox_table_def xtime_def
  mul2_def mul3_def mul9_def mul11_def mul13_def mul14_def SubBytes_def InvSubBytes_def
  AddRoundKey_def xor_bytes_def next_word_def KeyExpansion_def round_key_def Cipher_def
  InvCipher_def Rcon_def pkcs7_pad_def pkcs7_unpad_def ciphertext_def Let_def

lemma replicate_numeral: "replicate (numeral k) x = x # replicate (pred_numeral k) x"
  by (simp add: numeral_eq_Suc)

lemma chunks_numeral [simp]:
  "chunks (numeral n) (x # xs) = take (numeral n) (x # xs) # chunks (numeral n) (drop (numeral n) (x # xs))"
  by (subst chunks.simps) simp

lemma key1_bytes:
  "Buffer_from_hex (js ''000102030405060708090a0b0c0d0e0f101112131415161718191a1b1c1d1e1f'')
   = [0x00, 0x01, 0x02, 0x03, 0x04, 0x05, 0x06, 0x07, 0x08, 0x09, 0x0a, 0x0b, 0x0c, 0x0d,
     0x0e, 0x0f, 0x10, 0x11, 0x12, 0x13, 0x14, 0x15, 0x16, 0x17, 0x18, 0x19, 0x1a, 0x1b,
     0x1c, 0x1d, 0x1e, 0x1f]"
  by (simp add: string_eval)

lemma key2_bytes:
  "Buffer_from_hex (js ''000102030405060708090a0b0c0d0e0f101112131415161718191a1b1c1d0122'')
   = [0x00, 0x01, 0x02, 0x03, 0x04, 0x05, 0x06, 0x07, 0x08, 0x09, 0x0a, 0x0b, 0x0c, 0x0d,
     0x0e, 0x0f, 0x10, 0x11, 0x12, 0x13, 0x14, 0x15, 0x16, 0x17, 0x18, 0x19, 0x1a, 0x1b,
     0x1c, 0x1d, 0x01, 0x22]"
  by (simp add: string_eval)

lemma sample_ciphertext:
  "ciphertext (map of_nat [16..<32]) (js ''my secret key'')
     (js ''000102030405060708090a0b0c0d0e0f101112131415161718191a1b1c1d1e1f'')
   = [0xc0, 0x38, 0x27, 0x64, 0x41, 0xbf, 0x2c, 0x80, 0x97, 0x95, 0x05, 0x97, 0xdc, 0x80,
     0x9b, 0x72]"
  unfolding ciphertext_def key1_bytes
  by (simp add: aes_eval string_eval upt_rec replicate_numeral)

lemma sample_wrong_key:
  "pkcs7_unpad (cbc_decrypt (KeyExpansion (Buffer_from_hex (js ''000102030405060708090a0b0c0d0e0f101112131415161718191a1b1c1d0122'')))
       (map of_nat [16..<32])
       (chunks 16 [0xc0, 0x38, 0x27, 0x64, 0x41, 0xbf, 0x2c, 0x80, 0x97, 0x95, 0x05, 0x97, 0xdc,
         0x80, 0x9b, 0x72]))
   = Some [0xb7, 0x2b, 0xb9, 0x70, 0x3a, 0x2b, 0x42, 0x7e, 0xee, 0x6f, 0x6e, 0x59, 0xc6,
         0xba, 0x94]"
  unfolding key2_bytes
  by (simp add: aes_eval upt_rec replicate_numeral)


lemma sample_sealed:
  "sealed (map of_nat [16..<32]) (js ''my secret key'') (js ''000102030405060708090a0b0c0d0e0f101112131415161718191a1b1c1d1e1f'')
   = js ''101112131415161718191a1b1c1d1e1f:c038276441bf2c8097950597dc809b72''"
  unfolding sealed_def sample_ciphertext
  by (simp add: string_eval upt_rec)

lemma sample_iv: "length (map of_nat [16..<32] :: byte list) = 16"
  by simp

lemma ascii_well_formed: "list_all (\<lambda>u. unat u < 128) s \<Longrightarrow> well_formed s"
proof (induction s rule: well_formed.induct)
  case (1 u v us)
  then show ?case by (simp add: is_high_def is_low_def)
next
  case (2 u)
  then show ?case by (simp add: is_high_def is_low_def)
next
  case 3
  show ?case by simp
qed

section \<open>Sealing and opening a secret\<close>

text \<open>C4 (as the code has it): for every 16-byte IV, every key text that decodes to 32 bytes and
  every plaintext with no unpaired surrogate, \<^verbatim>\<open>encryptPrivateKey\<close> returns the hexadecimal IV, a
  colon and the hexadecimal ciphertext, and \<^verbatim>\<open>decryptPrivateKey\<close> under the same key returns the
  plaintext.\<close>
theorem encrypt_decrypt_round_trip:
  assumes "length v = 16" "length (Buffer_from_hex k) = 32" "well_formed p"
  shows "encryptPrivateKey v p k
           = Inr (toString_hex v @ js '':'' @ toString_hex (ciphertext v p k))
       \<and> decryptPrivateKey (toString_hex v @ js '':'' @ toString_hex (ciphertext v p k)) k = Inr p"
  using encryptPrivateKey_ok [OF assms(1,2)] decrypt_encrypt [OF assms(1,2)]
    utf8_round_trip [OF assms(3)]
  by simp

theorem encrypt_decrypt_round_trip_witness:
  "encryptPrivateKey (map of_nat [16..<32]) (js ''my secret key'')
       (js ''000102030405060708090a0b0c0d0e0f101112131415161718191a1b1c1d1e1f'')
     = Inr (js ''101112131415161718191a1b1c1d1e1f:c038276441bf2c8097950597dc809b72'')
   \<and> decryptPrivateKey (js ''101112131415161718191a1b1c1d1e1f:c038276441bf2c8097950597dc809b72'')
       (js ''000102030405060708090a0b0c0d0e0f101112131415161718191a1b1c1d1e1f'')
     = Inr (js ''my secret key'')"
proof -
  have k: "length (Buffer_from_hex (js ''000102030405060708090a0b0c0d0e0f101112131415161718191a1b1c1d1e1f'')) = 32"
    unfolding key1_bytes by simp
  have w: "well_formed (js ''my secret key'')"
    by (rule ascii_well_formed) (simp add: js_def)
  from encrypt_decrypt_round_trip [OF sample_iv k w] show ?thesis
    unfolding sample_sealed [unfolded sealed_def] .
qed

text \<open>C4 as stated fails on a plaintext that holds an unpaired surrogate: the string of the one
  code unit U+D800 is written as the bytes of U+FFFD, and comes back as U+FFFD.\<close>
theorem round_trip_counterexample:
  "encryptPrivateKey (map of_nat [16..<32]) [0xD800]
       (js ''000102030405060708090a0b0c0d0e0f101112131415161718191a1b1c1d1e1f'')
     = Inr (sealed (map of_nat [16..<32]) [0xD800]
              (js ''000102030405060708090a0b0c0d0e0f101112131415161718191a1b1c1d1e1f''))
   \<and> decryptPrivateKey (sealed (map of_nat [16..<32]) [0xD800]
                          (js ''000102030405060708090a0b0c0d0e0f101112131415161718191a1b1c1d1e1f''))
       (js ''000102030405060708090a0b0c0d0e0f101112131415161718191a1b1c1d1e1f'')
     = Inr [0xFFFD]
   \<and> [0xFFFD] \<noteq> [0xD800 :: 16 word]"
proof -
  have k: "length (Buffer_from_hex (js ''000102030405060708090a0b0c0d0e0f101112131415161718191a1b1c1d1e1f'')) = 32"
    unfolding key1_bytes by simp
  have "utf8_decode (utf8_encode [0xD800]) = [0xFFFD]"
    by (simp add: string_eval)
  with encrypt_sealed [OF sample_iv k] decrypt_sealed [OF sample_iv k, of "[0xD800]"]
  show ?thesis by simp
qed

section \<open>Opening a blob under another key\<close>

text \<open>The cipher is a bijection on blocks: the inverse cipher undoes it from both sides.\<close>
lemma Cipher_InvCipher:
  assumes "length key = 32" "length blk = 16"
  shows "Cipher (KeyExpansion key) (InvCipher (KeyExpansion key) blk) = blk"
    and "length (InvCipher (KeyExpansion key) blk) = 16"
proof -
  let ?A = "{b :: byte list. length b = 16}"
  let ?f = "Cipher (KeyExpansion key)"
  let ?g = "InvCipher (KeyExpansion key)"
  have fin: "finite ?A"
    using finite_lists_length_eq [of "UNIV :: byte set" 16] by simp
  have sub: "?f ` ?A \<subseteq> ?A"
    using aes_block_round_trip(2) [OF assms(1)] by auto
  have inj: "inj_on ?f ?A"
  proof (rule inj_onI)
    fix x y assume "x \<in> ?A" "y \<in> ?A" "?f x = ?f y"
    then have "?g (?f x) = ?g (?f y)" "length x = 16" "length y = 16" by simp_all
    then show "x = y" using aes_block_round_trip(1) [OF assms(1)] by simp
  qed
  from fin sub inj have "?f ` ?A = ?A" by (rule endo_inj_surj)
  moreover have "blk \<in> ?A" using assms(2) by simp
  ultimately have "blk \<in> ?f ` ?A" by simp
  then obtain a where a: "length a = 16" "?f a = blk" by blast
  have g: "?g blk = a" using aes_block_round_trip(1) [OF assms(1) a(1)] a(2) by simp
  show "?f (?g blk) = blk" unfolding g by (rule a(2))
  show "length (?g blk) = 16" unfolding g by (rule a(1))
qed

lemma length_cbc_decrypt:
  assumes "length key = 32" "\<forall>c \<in> set cs. length c = 16" "length prev = 16"
  shows "length (cbc_decrypt (KeyExpansion key) prev cs) = 16 * length cs"
  using assms(2,3)
proof (induction cs arbitrary: prev)
  case Nil
  show ?case by simp
next
  case (Cons c cs)
  then have c: "length c = 16" by simp
  from Cons.IH [of c] Cons.prems c
  show ?case
    by (simp add: length_xor_bytes Cipher_InvCipher(2) [OF assms(1) c])
qed

text \<open>Encrypting what the inverse cipher gave returns the ciphertext.\<close>
lemma cbc_encrypt_decrypt:
  assumes "length key = 32" "\<forall>c \<in> set cs. length c = 16" "length prev = 16"
  shows "cbc_encrypt (KeyExpansion key) prev (chunks 16 (cbc_decrypt (KeyExpansion key) prev cs))
         = concat cs"
  using assms(2,3)
proof (induction cs arbitrary: prev)
  case Nil
  show ?case by simp
next
  case (Cons c cs)
  then have c: "length c = 16" and cs: "\<forall>c \<in> set cs. length c = 16" by simp_all
  let ?x = "xor_bytes (InvCipher (KeyExpansion key) c) prev"
  have lx: "length ?x = 16"
    using Cons.prems(2) by (simp add: length_xor_bytes Cipher_InvCipher(2) [OF assms(1) c])
  have x: "xor_bytes ?x prev = InvCipher (KeyExpansion key) c"
    by (rule xor_bytes_cancel) (simp add: Cons.prems(2) Cipher_InvCipher(2) [OF assms(1) c])
  have "chunks 16 (?x @ cbc_decrypt (KeyExpansion key) c cs)
        = ?x # chunks 16 (cbc_decrypt (KeyExpansion key) c cs)"
    by (rule chunks_append_block) (simp_all add: lx)
  then show ?case
    using Cons.IH [OF cs c] by (simp add: x Cipher_InvCipher(1) [OF assms(1) c])
qed

text \<open>What passes the padding check is the padded form of what is returned.\<close>
lemma pkcs7_pad_unpad:
  assumes "pkcs7_unpad x = Some m" "length x mod 16 = 0"
  shows "pkcs7_pad m = x"
proof -
  define n where "n = unat (last x)"
  from assms(1) have ne: "x \<noteq> []" and n: "0 < n" "n \<le> 16" "n \<le> length x"
    and d: "drop (length x - n) x = replicate n (last x)"
    and m: "m = take (length x - n) x"
    by (auto simp: pkcs7_unpad_def Let_def n_def split: if_splits)
  have lm: "length m = length x - n" using m by simp
  obtain q where q: "length x = 16 * q"
    using assms(2) by (metis mod_eq_0_iff_dvd dvdE)
  have "0 < q" using q n by (cases q) simp_all
  then obtain q' where q': "q = Suc q'" by (cases q) simp_all
  have "length m = 16 * q' + (16 - n)" using lm q q' n by simp
  then have "length m mod 16 = (16 - n) mod 16" by simp
  then have pad: "16 - length m mod 16 = n" using n by (cases "n = 16") simp_all
  have "(of_nat n :: byte) = last x" by (simp add: n_def)
  with pad have "pkcs7_pad m = m @ replicate n (last x)"
    by (simp add: pkcs7_pad_def Let_def)
  also have "\<dots> = take (length x - n) x @ drop (length x - n) x" using m d by simp
  finally show ?thesis by simp
qed

lemma Buffer_from_hex_append:
  "Buffer_from_hex (toString_hex bs @ rest) = bs @ Buffer_from_hex rest"
proof (induction bs)
  case Nil
  show ?case by (simp add: toString_hex_def)
next
  case (Cons b bs)
  have d: "unat b div 16 < 16" and m: "unat b mod 16 < 16"
    using unat_byte_less [of b] by auto
  have "16 * (unat b div 16) + unat b mod 16 = unat b" by simp
  then have "(of_nat (16 * (unat b div 16) + unat b mod 16) :: byte) = b"
    by (metis of_nat_unat ucast_id)
  with Cons d m show ?case
    by (simp add: toString_hex_def hex_value_digit)
qed

text \<open>A sealed secret, followed by any text that holds no colon, has an even number of
  characters and whose first pair is not hexadecimal, is opened like the sealed secret.\<close>
lemma decrypt_blob_tail:
  assumes "length v = 16" "length (Buffer_from_hex k1) = 32" "length (Buffer_from_hex k2) = 32"
    and "58 \<notin> set tail" "even (length tail)" "Buffer_from_hex tail = []"
  shows "decryptPrivateKey (toString_hex v @ js '':'' @ toString_hex (ciphertext v p k1) @ tail) k2
         = (case pkcs7_unpad (cbc_decrypt (KeyExpansion (Buffer_from_hex k2)) v
                               (chunks 16 (ciphertext v p k1))) of
              None \<Rightarrow> Inl ERR_OSSL_BAD_DECRYPT
            | Some m \<Rightarrow> Inr (utf8_decode m))"
proof -
  let ?ct = "ciphertext v p k1"
  let ?pad = "pkcs7_pad (utf8_encode p)"
  have bl: "\<forall>b \<in> set (chunks 16 ?pad). length b = 16" and ne: "chunks 16 ?pad \<noteq> []"
    using chunks_blocks [OF pkcs7_pad_length(1)] pkcs7_pad_length(2) by blast+
  have len: "length ?ct = 16 * length (chunks 16 ?pad)"
    unfolding ciphertext_def using assms(2) bl assms(1) by (rule length_cbc_encrypt)
  with ne have ct: "?ct \<noteq> []" "length ?ct mod 16 = 0" by auto
  have "58 \<notin> set (toString_hex ?ct @ tail)" using assms(4) by (simp add: colon_notin_hex)
  then have sp: "split 58 (toString_hex v @ js '':'' @ toString_hex ?ct @ tail)
            = [toString_hex v, toString_hex ?ct @ tail]"
    by (simp add: js_def split_at_first split_no_sep colon_notin_hex)
  have b: "Buffer_from_hex (toString_hex ?ct @ tail) = ?ct"
    by (simp add: Buffer_from_hex_append assms(6))
  show ?thesis
    unfolding decryptPrivateKey_def sp using assms(1-3,5) ct
    by (simp add: Let_def Buffer_from_hex_toString length_toString_hex b)
qed

text \<open>The bytes that come back under the second key are bytes whose encryption under the
  second key is the ciphertext.\<close>
lemma decrypt_blob_relation:
  assumes "length v = 16" "length (Buffer_from_hex k1) = 32" "length (Buffer_from_hex k2) = 32"
  shows "decryptPrivateKey (toString_hex v @ js '':'' @ toString_hex (ciphertext v p k1)) k2
           = Inl ERR_OSSL_BAD_DECRYPT
       \<or> (\<exists>m. decryptPrivateKey (toString_hex v @ js '':'' @ toString_hex (ciphertext v p k1)) k2
                 = Inr (utf8_decode m)
              \<and> cbc_encrypt (KeyExpansion (Buffer_from_hex k2)) v (chunks 16 (pkcs7_pad m))
                 = ciphertext v p k1)"
proof -
  let ?ct = "ciphertext v p k1"
  let ?pad = "pkcs7_pad (utf8_encode p)"
  let ?x = "cbc_decrypt (KeyExpansion (Buffer_from_hex k2)) v (chunks 16 ?ct)"
  have bl: "\<forall>b \<in> set (chunks 16 ?pad). length b = 16"
    using chunks_blocks [OF pkcs7_pad_length(1)] by blast
  have len: "length ?ct = 16 * length (chunks 16 ?pad)"
    unfolding ciphertext_def using assms(2) bl assms(1) by (rule length_cbc_encrypt)
  then have "length ?ct mod 16 = 0" by simp
  from chunks_blocks(1) [OF this] have cb: "\<forall>c \<in> set (chunks 16 ?ct). length c = 16" .
  have lx: "length ?x mod 16 = 0"
    using length_cbc_decrypt [OF assms(3) cb assms(1)] by simp
  have e: "cbc_encrypt (KeyExpansion (Buffer_from_hex k2)) v (chunks 16 ?x) = ?ct"
    using cbc_encrypt_decrypt [OF assms(3) cb assms(1)] by (simp add: concat_chunks)
  show ?thesis
  proof (cases "pkcs7_unpad ?x")
    case None
    then show ?thesis by (simp add: decrypt_blob [OF assms])
  next
    case (Some m)
    from pkcs7_pad_unpad [OF Some lx] e
    have "cbc_encrypt (KeyExpansion (Buffer_from_hex k2)) v (chunks 16 (pkcs7_pad m)) = ?ct"
      by simp
    moreover have "decryptPrivateKey (toString_hex v @ js '':'' @ toString_hex ?ct) k2
                   = Inr (utf8_decode m)"
      using Some by (simp add: decrypt_blob [OF assms])
    ultimately show ?thesis by blast
  qed
qed

text \<open>Key texts that decode to the same bytes open the same.\<close>
lemma decrypt_same_bytes:
  assumes "Buffer_from_hex k2 = Buffer_from_hex k1"
  shows "decryptPrivateKey blob k2 = decryptPrivateKey blob k1"
  using assms by (simp add: decryptPrivateKey_def)

lemma decrypt_malformed:
  assumes "split 58 blob = ivtext # c # rest"
    and "odd (length c) \<or> Buffer_from_hex c = [] \<or> length (Buffer_from_hex c) mod 16 \<noteq> 0"
  shows "\<exists>err. decryptPrivateKey blob k = Inl err"
  using assms by (auto simp: decryptPrivateKey_def Let_def)

lemma key3_bytes:
  "Buffer_from_hex (js ''000102030405060708090a0b0c0d0e0f101112131415161718191a1b1c1d1e20'')
   = [0x00, 0x01, 0x02, 0x03, 0x04, 0x05, 0x06, 0x07, 0x08, 0x09, 0x0a, 0x0b, 0x0c, 0x0d,
     0x0e, 0x0f, 0x10, 0x11, 0x12, 0x13, 0x14, 0x15, 0x16, 0x17, 0x18, 0x19, 0x1a, 0x1b,
     0x1c, 0x1d, 0x1e, 0x20]"
  by (simp add: string_eval)

lemma key1_upper_bytes:
  "Buffer_from_hex (js ''000102030405060708090A0B0C0D0E0F101112131415161718191A1B1C1D1E1F'')
   = Buffer_from_hex (js ''000102030405060708090a0b0c0d0e0f101112131415161718191a1b1c1d1e1f'')"
  by (simp add: string_eval)

lemma sample_third_key:
  "pkcs7_unpad (cbc_decrypt (KeyExpansion (Buffer_from_hex (js ''000102030405060708090a0b0c0d0e0f101112131415161718191a1b1c1d1e20'')))
       (map of_nat [16..<32])
       (chunks 16 [0xc0, 0x38, 0x27, 0x64, 0x41, 0xbf, 0x2c, 0x80, 0x97, 0x95, 0x05, 0x97, 0xdc,
         0x80, 0x9b, 0x72]))
   = None"
  unfolding key3_bytes
  by (simp add: aes_eval upt_rec replicate_numeral)

section \<open>What \<^verbatim>\<open>decryptPrivateKey\<close> refuses\<close>

text \<open>C5 (as the code has it). \<^verbatim>\<open>decryptPrivateKey\<close> throws on a text without a colon, on a text
  whose part before the first colon does not decode to 16 bytes, and on a text whose part after
  the first colon has an odd number of characters or decodes to no bytes or to a number of bytes
  that is not a multiple of 16; hexadecimal text is decoded up to its first pair that is not
  hexadecimal. On a secret sealed under one 32-byte key and opened under another, it throws
  exactly when the bytes that come out of the inverse cipher do not end in PKCS#7 padding;
  when they do, it returns as UTF-8 the bytes \<open>m\<close> whose encryption under the second key is
  the ciphertext. Under a key text that decodes to the bytes of the first key it returns the
  secret, when the secret holds no unpaired surrogate.\<close>
theorem decryptPrivateKey_failures:
  "(58 \<notin> set blob \<longrightarrow> (\<exists>err. decryptPrivateKey blob k = Inl err))
   \<and> (length (Buffer_from_hex (hd (split 58 blob))) \<noteq> 16
        \<longrightarrow> decryptPrivateKey blob k = Inl ERR_CRYPTO_INVALID_IV)
   \<and> (split 58 blob = ivtext # c # rest
        \<and> (odd (length c) \<or> Buffer_from_hex c = [] \<or> length (Buffer_from_hex c) mod 16 \<noteq> 0)
        \<longrightarrow> (\<exists>err. decryptPrivateKey blob k = Inl err))
   \<and> (length v = 16 \<and> length (Buffer_from_hex k1) = 32 \<and> length (Buffer_from_hex k2) = 32
        \<longrightarrow> (pkcs7_unpad (cbc_decrypt (KeyExpansion (Buffer_from_hex k2)) v
                             (chunks 16 (ciphertext v p k1))) = None
             \<and> decryptPrivateKey (toString_hex v @ js '':'' @ toString_hex (ciphertext v p k1)) k2
               = Inl ERR_OSSL_BAD_DECRYPT)
          \<or> (\<exists>m. pkcs7_unpad (cbc_decrypt (KeyExpansion (Buffer_from_hex k2)) v
                                 (chunks 16 (ciphertext v p k1))) = Some m
                 \<and> decryptPrivateKey
                      (toString_hex v @ js '':'' @ toString_hex (ciphertext v p k1)) k2
                   = Inr (utf8_decode m)
                 \<and> cbc_encrypt (KeyExpansion (Buffer_from_hex k2)) v (chunks 16 (pkcs7_pad m))
                   = ciphertext v p k1))
   \<and> (length v = 16 \<and> length (Buffer_from_hex k1) = 32
        \<and> Buffer_from_hex k2 = Buffer_from_hex k1 \<and> well_formed p
        \<longrightarrow> decryptPrivateKey (toString_hex v @ js '':'' @ toString_hex (ciphertext v p k1)) k2
            = Inr p)"
proof (intro conjI impI)
  assume "58 \<notin> set blob"
  then have "split 58 blob = [blob]" by (rule split_no_sep)
  then show "\<exists>err. decryptPrivateKey blob k = Inl err"
    by (simp add: decryptPrivateKey_def Let_def)
next
  assume "length (Buffer_from_hex (hd (split 58 blob))) \<noteq> 16"
  then show "decryptPrivateKey blob k = Inl ERR_CRYPTO_INVALID_IV"
    by (simp add: decryptPrivateKey_def Let_def)
next
  assume "split 58 blob = ivtext # c # rest
        \<and> (odd (length c) \<or> Buffer_from_hex c = [] \<or> length (Buffer_from_hex c) mod 16 \<noteq> 0)"
  then show "\<exists>err. decryptPrivateKey blob k = Inl err"
    using decrypt_malformed [of blob ivtext c rest k] by blast
next
  let ?blob = "toString_hex v @ js '':'' @ toString_hex (ciphertext v p k1)"
  let ?x = "cbc_decrypt (KeyExpansion (Buffer_from_hex k2)) v (chunks 16 (ciphertext v p k1))"
  assume h: "length v = 16 \<and> length (Buffer_from_hex k1) = 32 \<and> length (Buffer_from_hex k2) = 32"
  then have a: "length v = 16" "length (Buffer_from_hex k1) = 32" "length (Buffer_from_hex k2) = 32"
    by simp_all
  show "(pkcs7_unpad ?x = None \<and> decryptPrivateKey ?blob k2 = Inl ERR_OSSL_BAD_DECRYPT)
          \<or> (\<exists>m. pkcs7_unpad ?x = Some m
                 \<and> decryptPrivateKey ?blob k2 = Inr (utf8_decode m)
                 \<and> cbc_encrypt (KeyExpansion (Buffer_from_hex k2)) v (chunks 16 (pkcs7_pad m))
                   = ciphertext v p k1)"
  proof (cases "pkcs7_unpad ?x")
    case None
    then show ?thesis by (simp add: decrypt_blob [OF a])
  next
    case (Some m)
    then have r: "decryptPrivateKey ?blob k2 = Inr (utf8_decode m)"
      by (simp add: decrypt_blob [OF a])
    from decrypt_blob_relation [OF a, of p] r
    obtain m' where m': "decryptPrivateKey ?blob k2 = Inr (utf8_decode m')"
      "cbc_encrypt (KeyExpansion (Buffer_from_hex k2)) v (chunks 16 (pkcs7_pad m'))
         = ciphertext v p k1"
      and u: "pkcs7_unpad ?x = Some m'"
    proof -
      let ?pad = "pkcs7_pad (utf8_encode p)"
      have bl: "\<forall>b \<in> set (chunks 16 ?pad). length b = 16"
        using chunks_blocks [OF pkcs7_pad_length(1)] by blast
      have "length (ciphertext v p k1) = 16 * length (chunks 16 ?pad)"
        unfolding ciphertext_def using a(2) bl a(1) by (rule length_cbc_encrypt)
      then have "length (ciphertext v p k1) mod 16 = 0" by simp
      from chunks_blocks(1) [OF this]
      have cb: "\<forall>c \<in> set (chunks 16 (ciphertext v p k1)). length c = 16" .
      have lx: "length ?x mod 16 = 0"
        using length_cbc_decrypt [OF a(3) cb a(1)] by simp
      have "cbc_encrypt (KeyExpansion (Buffer_from_hex k2)) v (chunks 16 ?x) = ciphertext v p k1"
        using cbc_encrypt_decrypt [OF a(3) cb a(1)] by (simp add: concat_chunks)
      with pkcs7_pad_unpad [OF Some lx]
      have "cbc_encrypt (KeyExpansion (Buffer_from_hex k2)) v (chunks 16 (pkcs7_pad m))
            = ciphertext v p k1" by simp
      with r Some show ?thesis using that by blast
    qed
    then show ?thesis by blast
  qed
next
  let ?blob = "toString_hex v @ js '':'' @ toString_hex (ciphertext v p k1)"
  assume h: "length v = 16 \<and> length (Buffer_from_hex k1) = 32
        \<and> Buffer_from_hex k2 = Buffer_from_hex k1 \<and> well_formed p"
  then have "decryptPrivateKey ?blob k2 = decryptPrivateKey ?blob k1"
    using decrypt_same_bytes by blast
  also have "\<dots> = Inr (utf8_decode (utf8_encode p))"
    using h by (simp add: decrypt_encrypt)
  finally show "decryptPrivateKey ?blob k2 = Inr p"
    using h by (simp add: utf8_round_trip)
qed

theorem decryptPrivateKey_failures_witness:
  "58 \<notin> set (js ''c038276441bf2c80'')
   \<and> (\<exists>err. decryptPrivateKey (js ''c038276441bf2c80'')
               (js ''000102030405060708090a0b0c0d0e0f101112131415161718191a1b1c1d1e1f'') = Inl err)
   \<and> length (Buffer_from_hex (hd (split 58 (js ''1011zz:c038276441bf2c8097950597dc809b72'')))) \<noteq> 16
   \<and> decryptPrivateKey (js ''1011zz:c038276441bf2c8097950597dc809b72'')
         (js ''000102030405060708090a0b0c0d0e0f101112131415161718191a1b1c1d1e1f'')
       = Inl ERR_CRYPTO_INVALID_IV
   \<and> split 58 (js ''101112131415161718191a1b1c1d1e1f:c038276441bf2c80'')
       = [js ''101112131415161718191a1b1c1d1e1f'', js ''c038276441bf2c80'']
   \<and> length (Buffer_from_hex (js ''c038276441bf2c80'')) mod 16 \<noteq> 0
   \<and> (\<exists>err. decryptPrivateKey (js ''101112131415161718191a1b1c1d1e1f:c038276441bf2c80'')
               (js ''000102030405060708090a0b0c0d0e0f101112131415161718191a1b1c1d1e1f'') = Inl err)
   \<and> decryptPrivateKey (js ''101112131415161718191a1b1c1d1e1f:c038276441bf2c8097950597dc809b72'')
         (js ''000102030405060708090a0b0c0d0e0f101112131415161718191a1b1c1d1e20'')
       = Inl ERR_OSSL_BAD_DECRYPT
   \<and> decryptPrivateKey (js ''101112131415161718191a1b1c1d1e1f:c038276441bf2c8097950597dc809b72'')
         (js ''000102030405060708090A0B0C0D0E0F101112131415161718191A1B1C1D1E1F'')
       = Inr (js ''my secret key'')"
proof -
  let ?k1 = "js ''000102030405060708090a0b0c0d0e0f101112131415161718191a1b1c1d1e1f''"
  let ?K1 = "js ''000102030405060708090A0B0C0D0E0F101112131415161718191A1B1C1D1E1F''"
  let ?k3 = "js ''000102030405060708090a0b0c0d0e0f101112131415161718191a1b1c1d1e20''"
  have k1: "length (Buffer_from_hex ?k1) = 32" unfolding key1_bytes by simp
  have k3: "length (Buffer_from_hex ?k3) = 32" unfolding key3_bytes by simp
  have a: "58 \<notin> set (js ''c038276441bf2c80'')" by (simp add: js_def)
  have b: "length (Buffer_from_hex (hd (split 58 (js ''1011zz:c038276441bf2c8097950597dc809b72'')))) \<noteq> 16"
    by (simp add: string_eval)
  have c: "split 58 (js ''101112131415161718191a1b1c1d1e1f:c038276441bf2c80'')
       = [js ''101112131415161718191a1b1c1d1e1f'', js ''c038276441bf2c80'']"
    by (simp add: js_def)
  have d: "length (Buffer_from_hex (js ''c038276441bf2c80'')) mod 16 \<noteq> 0"
    by (simp add: string_eval)
  have w: "well_formed (js ''my secret key'')"
    by (rule ascii_well_formed) (simp add: js_def)
  note t1 = decryptPrivateKey_failures
    [where blob = "js ''c038276441bf2c80''" and k = ?k1, THEN conjunct1]
  note t2 = decryptPrivateKey_failures
    [where blob = "js ''1011zz:c038276441bf2c8097950597dc809b72''" and k = ?k1,
     THEN conjunct2, THEN conjunct1]
  note t3 = decryptPrivateKey_failures
    [where blob = "js ''101112131415161718191a1b1c1d1e1f:c038276441bf2c80''" and k = ?k1
       and ivtext = "js ''101112131415161718191a1b1c1d1e1f''" and c = "js ''c038276441bf2c80''"
       and rest = "[]",
     THEN conjunct2, THEN conjunct2, THEN conjunct1]
  note t4 = decryptPrivateKey_failures
    [where v = "map of_nat [16..<32]" and ?k1.0 = ?k1 and ?k2.0 = ?k3 and p = "js ''my secret key''",
     THEN conjunct2, THEN conjunct2, THEN conjunct2, THEN conjunct1, folded sealed_def,
     unfolded sample_sealed sample_ciphertext sample_third_key]
  note t5 = decryptPrivateKey_failures
    [where v = "map of_nat [16..<32]" and ?k1.0 = ?k1 and ?k2.0 = ?K1 and p = "js ''my secret key''",
     THEN conjunct2, THEN conjunct2, THEN conjunct2, THEN conjunct2, folded sealed_def,
     unfolded sample_sealed]
  from t1 a have r1: "\<exists>err. decryptPrivateKey (js ''c038276441bf2c80'') ?k1 = Inl err" by simp
  from t2 b have r2: "decryptPrivateKey (js ''1011zz:c038276441bf2c8097950597dc809b72'') ?k1
       = Inl ERR_CRYPTO_INVALID_IV" by simp
  from t3 c d have r3: "\<exists>err. decryptPrivateKey
       (js ''101112131415161718191a1b1c1d1e1f:c038276441bf2c80'') ?k1 = Inl err" by simp
  from t4 k1 k3 sample_iv
  have r4: "decryptPrivateKey (js ''101112131415161718191a1b1c1d1e1f:c038276441bf2c8097950597dc809b72'') ?k3
       = Inl ERR_OSSL_BAD_DECRYPT" by simp
  from t5 k1 key1_upper_bytes sample_iv w
  have r5: "decryptPrivateKey (js ''101112131415161718191a1b1c1d1e1f:c038276441bf2c8097950597dc809b72'') ?K1
       = Inr (js ''my secret key'')" by simp
  from a b c d r1 r2 r3 r4 r5 show ?thesis by blast
qed

text \<open>C5 as stated fails twice. The secret \<^verbatim>\<open>my secret key\<close> sealed under the key
  \<^verbatim>\<open>00 01 ... 1e 1f\<close> opens under the different key \<^verbatim>\<open>00 01 ... 1d 01 22\<close> without an
  error, as fifteen bytes that read as a string of fourteen code units. And the sealed text
  followed by the two characters \<^verbatim>\<open>zz\<close>, which are not hexadecimal, opens under the first
  key without an error.\<close>
theorem wrong_key_counterexample:
  "js ''000102030405060708090a0b0c0d0e0f101112131415161718191a1b1c1d1e1f''
     \<noteq> js ''000102030405060708090a0b0c0d0e0f101112131415161718191a1b1c1d0122''
   \<and> Buffer_from_hex (js ''000102030405060708090a0b0c0d0e0f101112131415161718191a1b1c1d1e1f'')
     \<noteq> Buffer_from_hex (js ''000102030405060708090a0b0c0d0e0f101112131415161718191a1b1c1d0122'')
   \<and> encryptPrivateKey (map of_nat [16..<32]) (js ''my secret key'')
       (js ''000102030405060708090a0b0c0d0e0f101112131415161718191a1b1c1d1e1f'')
     = Inr (js ''101112131415161718191a1b1c1d1e1f:c038276441bf2c8097950597dc809b72'')
   \<and> decryptPrivateKey (js ''101112131415161718191a1b1c1d1e1f:c038276441bf2c8097950597dc809b72'')
       (js ''000102030405060708090a0b0c0d0e0f101112131415161718191a1b1c1d0122'')
     = Inr [0xFFFD, 43, 0xFFFD, 112, 58, 43, 66, 126, 0xFFFD, 111, 110, 89, 0x01BA, 0xFFFD]
   \<and> [0xFFFD, 43, 0xFFFD, 112, 58, 43, 66, 126, 0xFFFD, 111, 110, 89, 0x01BA, 0xFFFD]
     \<noteq> js ''my secret key''
   \<and> hex_value 122 = None
   \<and> decryptPrivateKey (js ''101112131415161718191a1b1c1d1e1f:c038276441bf2c8097950597dc809b72zz'')
       (js ''000102030405060708090a0b0c0d0e0f101112131415161718191a1b1c1d1e1f'')
     = Inr (js ''my secret key'')"
proof -
  let ?k1 = "js ''000102030405060708090a0b0c0d0e0f101112131415161718191a1b1c1d1e1f''"
  let ?k2 = "js ''000102030405060708090a0b0c0d0e0f101112131415161718191a1b1c1d0122''"
  let ?v = "map of_nat [16..<32] :: byte list"
  have k1: "length (Buffer_from_hex ?k1) = 32" unfolding key1_bytes by simp
  have k2: "length (Buffer_from_hex ?k2) = 32" unfolding key2_bytes by simp
  have d: "?k1 \<noteq> ?k2" by (simp add: js_def)
  have b: "Buffer_from_hex ?k1 \<noteq> Buffer_from_hex ?k2"
    unfolding key1_bytes key2_bytes by simp
  have e: "encryptPrivateKey ?v (js ''my secret key'') ?k1
     = Inr (js ''101112131415161718191a1b1c1d1e1f:c038276441bf2c8097950597dc809b72'')"
    using encrypt_sealed [OF sample_iv k1, of "js ''my secret key''"] unfolding sample_sealed .
  have "decryptPrivateKey (sealed ?v (js ''my secret key'') ?k1) ?k2
     = (case pkcs7_unpad (cbc_decrypt (KeyExpansion (Buffer_from_hex ?k2)) ?v
              (chunks 16 (ciphertext ?v (js ''my secret key'') ?k1))) of
          None \<Rightarrow> Inl ERR_OSSL_BAD_DECRYPT
        | Some m \<Rightarrow> Inr (utf8_decode m))"
    unfolding sealed_def by (rule decrypt_blob [OF sample_iv k1 k2])
  then have g: "decryptPrivateKey (sealed ?v (js ''my secret key'') ?k1) ?k2
     = Inr [0xFFFD, 43, 0xFFFD, 112, 58, 43, 66, 126, 0xFFFD, 111, 110, 89, 0x01BA, 0xFFFD]"
    unfolding sample_ciphertext sample_wrong_key
    by (simp add: string_eval)
  have n: "[0xFFFD, 43, 0xFFFD, 112, 58, 43, 66, 126, 0xFFFD, 111, 110, 89, 0x01BA, 0xFFFD]
     \<noteq> js ''my secret key''"
    by (simp add: js_def)
  have z: "hex_value 122 = None" by (simp add: hex_value_def)
  have w: "well_formed (js ''my secret key'')"
    by (rule ascii_well_formed) (simp add: js_def)
  have t: "58 \<notin> set (js ''zz'')" "even (length (js ''zz''))" "Buffer_from_hex (js ''zz'') = []"
    by (simp_all add: string_eval)
  have "decryptPrivateKey (toString_hex ?v @ js '':'' @
            toString_hex (ciphertext ?v (js ''my secret key'') ?k1) @ js ''zz'') ?k1
        = decryptPrivateKey (toString_hex ?v @ js '':'' @
            toString_hex (ciphertext ?v (js ''my secret key'') ?k1)) ?k1"
    unfolding decrypt_blob_tail [OF sample_iv k1 k1 t] decrypt_blob [OF sample_iv k1 k1] ..
  also have "\<dots> = Inr (js ''my secret key'')"
    using decrypt_sealed_well_formed [OF sample_iv k1 w] by (simp add: sealed_def)
  finally have "decryptPrivateKey
      (sealed ?v (js ''my secret key'') ?k1 @ js ''zz'') ?k1 = Inr (js ''my secret key'')"
    by (simp add: sealed_def)
  moreover have "js ''101112131415161718191a1b1c1d1e1f:c038276441bf2c8097950597dc809b72'' @ js ''zz''
      = js ''101112131415161718191a1b1c1d1e1f:c038276441bf2c8097950597dc809b72zz''"
    by (simp add: js_def)
  ultimately have j: "decryptPrivateKey
      (js ''101112131415161718191a1b1c1d1e1f:c038276441bf2c8097950597dc809b72zz'') ?k1
      = Inr (js ''my secret key'')"
    unfolding sample_sealed by simp
  from g have g': "decryptPrivateKey
      (js ''101112131415161718191a1b1c1d1e1f:c038276441bf2c8097950597dc809b72'') ?k2
     = Inr [0xFFFD, 43, 0xFFFD, 112, 58, 43, 66, 126, 0xFFFD, 111, 110, 89, 0x01BA, 0xFFFD]"
    unfolding sample_sealed .
  from d b e g' n z j show ?thesis by blast
qed

section \<open>The Solana secret key read back as a list of numbers\<close>











section \<open>Registration, and the two Solana operations\<close>



lemma registerUser_answers:
  "status (fst (registerUser lib e db n p)) = 400 \<or> status (fst (registerUser lib e db n p)) = 500"
  by (simp add: registerUser_def save_new_def new_User_def validate_def truthy_def msg_def
        failure_def split: option.splits sum.splits)












section \<open>The controllers on the documents of models/User.js\<close>

lemma createAdditionalWallet_fails:
  "createAdditionalWallet lib e db i b l p
   = (case findById db i of
        None \<Rightarrow> (msg 404 ''User not found'', db)
      | Some u \<Rightarrow> (failure lib ''Server error'' ERR_INVALID_ARG_TYPE, db))"
  by (simp add: createAdditionalWallet_def generateEncryptionKey_def salt_def
        split: option.splits)

lemma setDefaultWallet_fails:
  "setDefaultWallet lib db i a b
   = (case findById db i of
        None \<Rightarrow> (msg 404 ''User not found'', db)
      | Some u \<Rightarrow> (failure lib ''Server error'' TypeError_not_a_function, db))"
  by (simp add: setDefaultWallet_def array_method_def split: option.splits)

lemma recoverWalletFromPhrase_fails:
  "recoverWalletFromPhrase lib e db n p np
   = (case findOne db n of
        None \<Rightarrow> (msg 404 ''User not found'', db)
      | Some u \<Rightarrow>
          if bcrypt_compare lib p (password u)
          then (failure lib ''Recovery failed'' ERR_INVALID_ARG_TYPE, db)
          else (msg 401 ''Invalid credentials'', db))"
  by (simp add: recoverWalletFromPhrase_def generateEncryptionKey_def salt_def
        split: option.splits)

lemma existing_never_found:
  "find (\<lambda>x. entry_address x = Some a \<and> entry_blockchain x = Some b) xs = None"
  by (simp add: find_None_iff entry_blockchain_def)

lemma save_cast_refused:
  "vs \<noteq> [] \<Longrightarrow>
   save lib e m (u\<lparr>addressBook := addressBook u @ map cast_entry vs\<rparr>) db = Inl ValidationError"
  by (cases vs) (simp_all add: save_def validate_def validate_entry_def cast_entry_def truthy_def)

lemma addAddressBookEntry_fails:
  "addAddressBookEntry lib e db i l a b n
   = (case findById db i of
        None \<Rightarrow> (msg 404 ''User not found'', db)
      | Some u \<Rightarrow>
          if (if b = js ''ethereum'' then isAddress lib a
              else if b = js ''solana'' then isPublicKey lib a else False)
          then (failure lib ''Server error'' ValidationError, db)
          else (\<lparr>status = 400,
                 body = JObject [(''message'', JString (js ''Invalid '' @ b
                                                       @ js '' address format''))]\<rparr>, db))"
  using save_cast_refused [of "[x]" for x]
  by (simp add: addAddressBookEntry_def existing_never_found Let_def split: option.splits)

lemma addBatchAddressBookEntries_store:
  "snd (addBatchAddressBookEntries lib e db i es) = db"
  by (simp add: addBatchAddressBookEntries_def save_cast_refused Let_def split: option.splits)

lemma sample_address_valid:
  "isAddress sample_libs (js ''0x70997970c51812dc3a010c7d01b50e0d17dc79c8'')"
  by (simp add: sample_lib_fields sample_isAddress_def string_eval hex_value_def)

text \<open>C1. \<^verbatim>\<open>recoverWalletFromPhrase\<close> never re-keys anything. An unknown user name is answered
  with 404 and a wrong password with 401; for a known user with the right password
  \<^verbatim>\<open>generateEncryptionKey\<close> is called with \<^verbatim>\<open>user.salt\<close>, which no document has, and the
  controller answers 500 \<^verbatim>\<open>Recovery failed\<close>, with or without a new password. The store is the
  same after the call in every case. So for \<^verbatim>\<open>alice\<close>, who gives her password and the new
  password \<^verbatim>\<open>p2\<close>.\<close>
theorem recoverWalletFromPhrase_never_rekeys:
  "recoverWalletFromPhrase lib e db n p np
   = (case findOne db n of
        None \<Rightarrow> (msg 404 ''User not found'', db)
      | Some u \<Rightarrow>
          if bcrypt_compare lib p (password u)
          then (failure lib ''Recovery failed'' ERR_INVALID_ARG_TYPE, db)
          else (msg 401 ''Invalid credentials'', db))
   \<and> recoverWalletFromPhrase sample_libs (sample_env 2 salt0) sample_db (js ''alice'')
        (js ''correct horse'') (Some (js ''p2''))
     = (failure sample_libs ''Recovery failed'' ERR_INVALID_ARG_TYPE, sample_db)
   \<and> status (fst (recoverWalletFromPhrase sample_libs (sample_env 2 salt0) sample_db
                     (js ''alice'') (js ''correct horse'') (Some (js ''p2'')))) = 500"
proof -
  have "recoverWalletFromPhrase sample_libs (sample_env 2 salt0) sample_db (js ''alice'')
          (js ''correct horse'') (Some (js ''p2''))
        = (failure sample_libs ''Recovery failed'' ERR_INVALID_ARG_TYPE, sample_db)"
    unfolding recoverWalletFromPhrase_fails findOne_sample_db
    by (simp add: sample_lib_fields sample_user_fields js_def)
  then show ?thesis
    unfolding recoverWalletFromPhrase_fails [of lib e db n p np] by (simp add: failure_def)
qed

text \<open>C2. \<^verbatim>\<open>setDefaultWallet\<close> never answers \<^verbatim>\<open>Wallet not found\<close> and never changes a wallet: for
  a user that exists the call of \<^verbatim>\<open>user.wallets.findIndex\<close> throws, and the controller answers
  500 \<^verbatim>\<open>Server error\<close>; the store is the same after the call. So for \<^verbatim>\<open>alice\<close>, who has no
  wallet that could match.\<close>
theorem setDefaultWallet_never_finds:
  "setDefaultWallet lib db i a b
   = (case findById db i of
        None \<Rightarrow> (msg 404 ''User not found'', db)
      | Some u \<Rightarrow> (failure lib ''Server error'' TypeError_not_a_function, db))
   \<and> setDefaultWallet sample_libs sample_db 1 (js ''0x70997970c51812dc3a010c7d01b50e0d17dc79c8'')
        (js ''ethereum'')
     = (failure sample_libs ''Server error'' TypeError_not_a_function, sample_db)
   \<and> status (fst (setDefaultWallet sample_libs sample_db 1
                     (js ''0x70997970c51812dc3a010c7d01b50e0d17dc79c8'') (js ''ethereum''))) = 500"
proof -
  have "setDefaultWallet sample_libs sample_db 1 (js ''0x70997970c51812dc3a010c7d01b50e0d17dc79c8'')
          (js ''ethereum'')
        = (failure sample_libs ''Server error'' TypeError_not_a_function, sample_db)"
    unfolding setDefaultWallet_fails findById_sample_db by simp
  then show ?thesis
    unfolding setDefaultWallet_fails [of lib db i a b] by (simp add: failure_def)
qed

text \<open>C6. \<^verbatim>\<open>createAdditionalWallet\<close> appends nothing: for a user that exists
  \<^verbatim>\<open>generateEncryptionKey\<close> is called with \<^verbatim>\<open>user.salt\<close>, which no document has, and the
  controller answers 500 \<^verbatim>\<open>Server error\<close> before it builds the wallet; the store is the same
  after the call. So for \<^verbatim>\<open>alice\<close>, whose new Ethereum wallet would be the first of its
  chain.\<close>
theorem createAdditionalWallet_appends_nothing:
  "createAdditionalWallet lib e db i b l p
   = (case findById db i of
        None \<Rightarrow> (msg 404 ''User not found'', db)
      | Some u \<Rightarrow> (failure lib ''Server error'' ERR_INVALID_ARG_TYPE, db))
   \<and> createAdditionalWallet sample_libs (sample_env 2 salt0) sample_db 1 (js ''ethereum'')
        (Some (js ''savings'')) (js ''correct horse'')
     = (failure sample_libs ''Server error'' ERR_INVALID_ARG_TYPE, sample_db)
   \<and> wallets (the (findById sample_db 1)) = \<lparr>ethereum = [], solana = []\<rparr>"
proof -
  have "createAdditionalWallet sample_libs (sample_env 2 salt0) sample_db 1 (js ''ethereum'')
          (Some (js ''savings'')) (js ''correct horse'')
        = (failure sample_libs ''Server error'' ERR_INVALID_ARG_TYPE, sample_db)"
    unfolding createAdditionalWallet_fails findById_sample_db by simp
  then show ?thesis
    unfolding createAdditionalWallet_fails [of lib e db i b l p] findById_sample_db
    by (simp add: sample_user_fields)
qed

text \<open>C9. Neither address-book controller stores an entry. \<^verbatim>\<open>addAddressBookEntry\<close> answers 404
  for an unknown user, 400 for an address that is not valid for its chain (every chain other
  than \<^verbatim>\<open>ethereum\<close> and \<^verbatim>\<open>solana\<close> included), and 500 \<^verbatim>\<open>Server error\<close> otherwise, because \<^verbatim>\<open>save\<close>
  refuses the entry it pushed; it never answers \<^verbatim>\<open>Address already exists in address book\<close>.
  \<^verbatim>\<open>addBatchAddressBookEntries\<close> leaves the store as it was. So for \<^verbatim>\<open>alice\<close>: a valid new entry
  is answered with 500, and so is the batch of two copies of it, of which neither is stored.\<close>
theorem address_book_stores_nothing:
  "addAddressBookEntry lib e db i l a b n
   = (case findById db i of
        None \<Rightarrow> (msg 404 ''User not found'', db)
      | Some u \<Rightarrow>
          if (if b = js ''ethereum'' then isAddress lib a
              else if b = js ''solana'' then isPublicKey lib a else False)
          then (failure lib ''Server error'' ValidationError, db)
          else (\<lparr>status = 400,
                 body = JObject [(''message'', JString (js ''Invalid '' @ b
                                                       @ js '' address format''))]\<rparr>, db))
   \<and> snd (addBatchAddressBookEntries lib e db i es) = db
   \<and> addAddressBookEntry sample_libs (sample_env 2 salt0) sample_db 1 (js ''bob'')
        (js ''0x70997970c51812dc3a010c7d01b50e0d17dc79c8'') (js ''ethereum'') None
     = (failure sample_libs ''Server error'' ValidationError, sample_db)
   \<and> addBatchAddressBookEntries sample_libs (sample_env 2 salt0) sample_db 1
        [\<lparr>b_label = Some (js ''bob''),
          b_address = Some (js ''0x70997970c51812dc3a010c7d01b50e0d17dc79c8''),
          b_blockchain = Some (js ''ethereum''), b_notes = None\<rparr>,
         \<lparr>b_label = Some (js ''bob''),
          b_address = Some (js ''0x70997970c51812dc3a010c7d01b50e0d17dc79c8''),
          b_blockchain = Some (js ''ethereum''), b_notes = None\<rparr>]
     = (failure sample_libs ''Server error'' ValidationError, sample_db)"
proof -
  let ?a = "js ''0x70997970c51812dc3a010c7d01b50e0d17dc79c8''"
  let ?x = "\<lparr>b_label = Some (js ''bob''), b_address = Some ?a,
             b_blockchain = Some (js ''ethereum''), b_notes = None\<rparr>"
  have lower: "toLowerCase (js ''ethereum'') = js ''ethereum''"
    by (simp add: toLowerCase_def string_eval)
  have nonempty: "js ''bob'' \<noteq> []" "?a \<noteq> []" "js ''ethereum'' \<noteq> []"
    by (simp_all add: string_eval)
  have one: "addAddressBookEntry sample_libs (sample_env 2 salt0) sample_db 1 (js ''bob'') ?a
               (js ''ethereum'') None
             = (failure sample_libs ''Server error'' ValidationError, sample_db)"
    unfolding addAddressBookEntry_fails findById_sample_db
    using sample_address_valid by simp
  have step1: "batch_step sample_libs (sample_env 2 salt0) sample_user ?x ([], [])
               = ([\<lparr>o_label = js ''bob'', o_address = ?a, o_blockchain = js ''ethereum'',
                    o_notes = [], o_createdAt = 1700000000\<rparr>], [])"
    using sample_address_valid nonempty
    by (simp add: batch_step_def Let_def truthy_def lower existing_never_found
          sample_env_fields)
  have step2: "batch_step sample_libs (sample_env 2 salt0) sample_user ?x
                 ([\<lparr>o_label = js ''bob'', o_address = ?a, o_blockchain = js ''ethereum'',
                    o_notes = [], o_createdAt = 1700000000\<rparr>], [])
               = ([\<lparr>o_label = js ''bob'', o_address = ?a, o_blockchain = js ''ethereum'',
                    o_notes = [], o_createdAt = 1700000000\<rparr>],
                  [(?x, js ''Duplicate address in batch'')])"
    using sample_address_valid nonempty
    by (simp add: batch_step_def Let_def truthy_def lower existing_never_found)
  have two: "addBatchAddressBookEntries sample_libs (sample_env 2 salt0) sample_db 1 [?x, ?x]
             = (failure sample_libs ''Server error'' ValidationError, sample_db)"
  proof -
    let ?v = "\<lparr>o_label = js ''bob'', o_address = ?a, o_blockchain = js ''ethereum'',
               o_notes = [], o_createdAt = 1700000000\<rparr>"
    have acc: "fold (batch_step sample_libs (sample_env 2 salt0) sample_user) [?x, ?x] ([], [])
               = ([?v], [(?x, js ''Duplicate address in batch'')])"
      by (simp add: step1 step2)
    have sv: "save sample_libs (sample_env 2 salt0) False
                (sample_user\<lparr>addressBook := addressBook sample_user @ map cast_entry [?v]\<rparr>)
                sample_db = Inl ValidationError"
      by (rule save_cast_refused) simp
    show ?thesis
      unfolding addBatchAddressBookEntries_def
      by (simp only: findById_sample_db option.case acc Let_def fst_conv snd_conv sv sum.case
            list.distinct if_False)
  qed
  show ?thesis
    by (intro conjI addAddressBookEntry_fails addBatchAddressBookEntries_store one two)
qed

text \<open>C10. \<^verbatim>\<open>createAdditionalWallet\<close> succeeds for no password: its answer does not depend on
  the password of the request, it is never 201, and the store is the same after the call. So
  for \<^verbatim>\<open>alice\<close>, with her password and with another one: both requests are answered with 500
  \<^verbatim>\<open>Server error\<close>, and no wallet is stored.\<close>
theorem createAdditionalWallet_fails_for_every_password:
  "createAdditionalWallet lib e db i b l p = createAdditionalWallet lib e db i b l p'
   \<and> status (fst (createAdditionalWallet lib e db i b l p)) \<noteq> 201
   \<and> snd (createAdditionalWallet lib e db i b l p) = db
   \<and> createAdditionalWallet sample_libs (sample_env 2 salt0) sample_db 1 (js ''solana'') None
        (js ''correct horse'')
     = (failure sample_libs ''Server error'' ERR_INVALID_ARG_TYPE, sample_db)
   \<and> createAdditionalWallet sample_libs (sample_env 2 salt0) sample_db 1 (js ''solana'') None
        (js ''guess'')
     = (failure sample_libs ''Server error'' ERR_INVALID_ARG_TYPE, sample_db)"
proof -
  have "createAdditionalWallet sample_libs (sample_env 2 salt0) sample_db 1 (js ''solana'') None q
        = (failure sample_libs ''Server error'' ERR_INVALID_ARG_TYPE, sample_db)" for q
    unfolding createAdditionalWallet_fails findById_sample_db by simp
  then show ?thesis
    unfolding createAdditionalWallet_fails [of lib e db i b l]
    by (simp add: failure_def msg_def split: option.splits)
qed

end
